theory Spec2Isabelle
  imports Complex_Main "HOL-Library.Sublist"
begin

section \<open>Python strings\<close>

text \<open>
  A Python \<open>str\<close> is a sequence of Unicode code points, so a string is a list of
  natural numbers (every element of a real \<open>str\<close> is below \<open>0x110000\<close>). \<open>ascii\<close>
  turns an ASCII literal into such a list.
\<close>

type_synonym pystr = "nat list"

definition ascii :: "string \<Rightarrow> pystr" where
  "ascii s = map of_char s"

text \<open>
  \<open>str.isspace\<close> for one code point. \<open>str.strip()\<close> and the class \<open>\s\<close> of a
  \<open>str\<close> pattern both use this set.
\<close>

definition isspace :: "nat \<Rightarrow> bool" where
  "isspace c \<longleftrightarrow>
     (0x09 \<le> c \<and> c \<le> 0x0D) \<or> (0x1C \<le> c \<and> c \<le> 0x20) \<or> c = 0x85 \<or> c = 0xA0 \<or>
     c = 0x1680 \<or> (0x2000 \<le> c \<and> c \<le> 0x200A) \<or> c = 0x2028 \<or> c = 0x2029 \<or>
     c = 0x202F \<or> c = 0x205F \<or> c = 0x3000"

definition strip :: "pystr \<Rightarrow> pystr" where
  "strip s = rev (dropWhile isspace (rev (dropWhile isspace s)))"

text \<open>\<open>" ".join(parts)\<close>\<close>

fun join_space :: "pystr list \<Rightarrow> pystr" where
  "join_space [] = []"
| "join_space [p] = p"
| "join_space (p # ps) = p @ [0x20] @ join_space ps"

text \<open>\<open>title.replace(' ', '_')\<close>\<close>

definition replace_spaces :: "pystr \<Rightarrow> pystr" where
  "replace_spaces s = map (\<lambda>c. if c = 0x20 then 0x5F else c) s"

section \<open>The regular expressions of the small-talk table\<close>

text \<open>
  The patterns are built from literals, \<open>\b\<close>, concatenation and alternation, and are
  compiled with \<open>re.I\<close>.

  \<open>\w\<close> of a \<open>str\<close> pattern is \<open>[a-zA-Z0-9_]\<close> on ASCII and the alphanumeric
  property of the Unicode database elsewhere. That table is not part of the program: the
  parameter \<open>U\<close> stands for it on the code points from \<open>0x80\<close> on. No whitespace code
  point is alphanumeric in the database, which \<open>is_word\<close> records.
\<close>

definition ascii_alnum :: "nat \<Rightarrow> bool" where
  "ascii_alnum c \<longleftrightarrow>
     (0x30 \<le> c \<and> c \<le> 0x39) \<or> (0x41 \<le> c \<and> c \<le> 0x5A) \<or> (0x61 \<le> c \<and> c \<le> 0x7A)"

definition is_word :: "(nat \<Rightarrow> bool) \<Rightarrow> nat \<Rightarrow> bool" where
  "is_word U c = (if c < 0x80 then ascii_alnum c \<or> c = 0x5F else U c \<and> \<not> isspace c)"

text \<open>
  A literal character \<open>p\<close> of the pattern against a character \<open>c\<close> of the text under
  \<open>re.I\<close>. For an ASCII letter the text may hold either case, and the three letters
  i, s and k also match the code points whose lower case they are or that the \<open>re\<close>
  module treats as equivalent (U+0130, U+0131, U+017F, U+212A). Every other character of
  the patterns here (space, apostrophe) is uncased and matches itself only.
\<close>

definition ascii_letter :: "nat \<Rightarrow> bool" where
  "ascii_letter c \<longleftrightarrow> (0x41 \<le> c \<and> c \<le> 0x5A) \<or> (0x61 \<le> c \<and> c \<le> 0x7A)"

definition ascii_lower :: "nat \<Rightarrow> nat" where
  "ascii_lower c = (if 0x41 \<le> c \<and> c \<le> 0x5A then c + 0x20 else c)"

definition ci_match :: "nat \<Rightarrow> nat \<Rightarrow> bool" where
  "ci_match p c =
     (if ascii_letter p
      then ascii_lower c = ascii_lower p \<or>
           (ascii_lower p = 0x69 \<and> (c = 0x130 \<or> c = 0x131)) \<or>
           (ascii_lower p = 0x73 \<and> c = 0x17F) \<or>
           (ascii_lower p = 0x6B \<and> c = 0x212A)
      else c = p)"

datatype rx = Lit pystr | WordB | Seq "rx list" | Alts "rx list"

text \<open>
  A position in the text: the character before it, if there is one, and the text from the
  position on.
\<close>

type_synonym cursor = "nat option \<times> pystr"

text \<open>
  \<open>\b\<close>: exactly one of the characters before and after the position is a word
  character; outside the string there is none.
\<close>

fun boundary :: "(nat \<Rightarrow> bool) \<Rightarrow> cursor \<Rightarrow> bool" where
  "boundary U (prev, rest) =
     ((case prev of None \<Rightarrow> False | Some c \<Rightarrow> is_word U c) \<noteq>
      (case rest of [] \<Rightarrow> False | c # _ \<Rightarrow> is_word U c))"

text \<open>A literal string at a position: the position after it, when it matches.\<close>

fun lit_match :: "pystr \<Rightarrow> cursor \<Rightarrow> cursor option" where
  "lit_match [] cur = Some cur"
| "lit_match (p # ps) (prev, []) = None"
| "lit_match (p # ps) (prev, c # cs) = (if ci_match p c then lit_match ps (Some c, cs) else None)"

text \<open>
  \<open>matches U r cur\<close> lists, in the order the backtracking matcher tries them, the
  positions where a match of \<open>r\<close> that starts at \<open>cur\<close> can end.
\<close>

fun matches :: "(nat \<Rightarrow> bool) \<Rightarrow> rx \<Rightarrow> cursor \<Rightarrow> cursor list" where
  "matches U (Lit w) cur = (case lit_match w cur of None \<Rightarrow> [] | Some cur' \<Rightarrow> [cur'])"
| "matches U WordB cur = (if boundary U cur then [cur] else [])"
| "matches U (Seq rs) cur = fold (\<lambda>r curs. concat (map (matches U r) curs)) rs [cur]"
| "matches U (Alts rs) cur = concat (map (\<lambda>r. matches U r cur) rs)"

text \<open>
  \<open>pattern.search(text)\<close> used as a condition: there is a match at some start position,
  tried from left to right.
\<close>

fun search_from :: "(nat \<Rightarrow> bool) \<Rightarrow> rx \<Rightarrow> cursor \<Rightarrow> bool" where
  "search_from U r (prev, []) = (matches U r (prev, []) \<noteq> [])"
| "search_from U r (prev, c # cs) =
     (matches U r (prev, c # cs) \<noteq> [] \<or> search_from U r (Some c, cs))"

definition search :: "(nat \<Rightarrow> bool) \<Rightarrow> rx \<Rightarrow> pystr \<Rightarrow> bool" where
  "search U r s = search_from U r (None, s)"

section \<open>The small-talk table\<close>

record intent =
  name :: pystr
  pattern :: rx
  replies :: "pystr list"

text \<open>\<open>\b(w1|...|wn)\b\<close>\<close>

definition word_group :: "string list \<Rightarrow> rx" where
  "word_group ws = Seq [WordB, Alts (map (\<lambda>w. Lit (ascii w)) ws), WordB]"

text \<open>
  The non-ASCII characters of the replies and messages, as the code points the source file
  holds.
\<close>

definition smile :: pystr where
  "smile = [0xF0, 0x178, 0x2DC, 0x160]"

definition wave :: pystr where
  "wave = [0xF0, 0x178, 0x2018, 0x2039]"

definition dash :: pystr where
  "dash = [0xE2, 0x20AC, 0x201D]"

definition greeting :: intent where
  "greeting = \<lparr>name = ascii ''greeting'',
     pattern = word_group [''hi'', ''hello'', ''hey'', ''hiya'', ''hlo''],
     replies = [ascii ''Hi!'', ascii ''Hello '' @ wave, ascii ''Hey! Kaise ho?'']\<rparr>"

definition howare :: intent where
  "howare = \<lparr>name = ascii ''howare'',
     pattern = word_group [''how are you'', ''how r u'', ''how're you'',
                           ''how are u'', ''kaise ho'', ''kya haal''],
     replies = [ascii ''Main theek hoon, thank you! Aap kaise ho?'',
                ascii ''Doing well '' @ dash @ ascii '' aap batao, kaise ho?'']\<rparr>"

definition imfine :: intent where
  "imfine = \<lparr>name = ascii ''imfine'',
     pattern = word_group [''i am fine'', ''i'm fine'', ''main theek hoon'',
                           ''mai theek hu'', ''mai thik hu''],
     replies = [ascii ''Achha! Khushi hui sunke '' @ smile, ascii ''Great! Batao aur kuch puchna hai?'']\<rparr>"

definition thanks :: intent where
  "thanks = \<lparr>name = ascii ''thanks'',
     pattern = word_group [''thanks'', ''thank you'', ''thx'', ''shukriya''],
     replies = [ascii ''Aapka swagat hai!'', ascii ''No problem!'']\<rparr>"

definition farewell :: intent where
  "farewell = \<lparr>name = ascii ''farewell'',
     pattern = word_group [''bye'', ''goodbye'', ''see ya'', ''exit'', ''quit'', ''alvida''],
     replies = [ascii ''Goodbye! '' @ smile, ascii ''See you later!'']\<rparr>"

text \<open>
  \<open>\bhelp|commands\b\<close>: the alternation binds weakest, so each \<open>\b\<close> belongs to one
  branch only.
\<close>

definition help_info :: intent where
  "help_info = \<lparr>name = ascii ''help'',
     pattern = Alts [Seq [WordB, Lit (ascii ''help'')], Seq [Lit (ascii ''commands''), WordB]],
     replies = [ascii (''Aap simple questions pooch sakte hain like 'photosynthesis', '' @
                       '''who is albert einstein', ya normal chitchat (hello/how are you).'')]\<rparr>"

text \<open>The dict literal, in insertion order (the order \<open>items()\<close> yields).\<close>

definition SMALL_TALK :: "intent list" where
  "SMALL_TALK = [greeting, howare, imfine, thanks, farewell, help_info]"

text \<open>
  The loop of \<open>check_small_talk\<close> over the remaining entries; \<open>None\<close> is Python's
  \<open>None\<close>. \<open>info["replies"][0]\<close> raises on an empty list, which no entry of the table
  has (lemma \<open>SMALL_TALK_replies\<close>).
\<close>

fun first_reply :: "(nat \<Rightarrow> bool) \<Rightarrow> intent list \<Rightarrow> pystr \<Rightarrow> pystr option" where
  "first_reply U [] text = None"
| "first_reply U (info # rest) text =
     (if search U (pattern info) text then Some (replies info ! 0) else first_reply U rest text)"

definition check_small_talk :: "(nat \<Rightarrow> bool) \<Rightarrow> pystr \<Rightarrow> pystr option" where
  "check_small_talk U text = first_reply U SMALL_TALK text"

section \<open>Values, exceptions and the remote services\<close>

text \<open>
  What \<open>r.json()\<close> can return. An object is the association list of its keys, each bound
  once. The payload of \<open>JFloat\<close> is the value of the float; \<open>inf\<close> and \<open>nan\<close>, which
  the parser also accepts, behave in this program like any float other than zero.
  \<open>JNull\<close> is \<open>None\<close>.
\<close>

datatype json =
    JNull
  | JBool bool
  | JInt int
  | JFloat real
  | JStr pystr
  | JList "json list"
  | JDict "(pystr \<times> json) list"

datatype exn =
    RequestException
  | HTTPError
  | JSONDecodeError
  | TypeError
  | IndexError
  | KeyError
  | AttributeError
  | UnicodeEncodeError

text \<open>The truth value of an object in a condition (\<open>if titles:\<close>, \<open>if not title:\<close>).\<close>

fun truthy :: "json \<Rightarrow> bool" where
  "truthy JNull = False"
| "truthy (JBool b) = b"
| "truthy (JInt n) = (n \<noteq> 0)"
| "truthy (JFloat x) = (x \<noteq> 0)"
| "truthy (JStr s) = (s \<noteq> [])"
| "truthy (JList xs) = (xs \<noteq> [])"
| "truthy (JDict kvs) = (kvs \<noteq> [])"

text \<open>
  \<open>data[i]\<close> for the constants \<open>i = 1\<close> and \<open>i = 0\<close> of the source: an element of a
  list, a one-character string of a string, \<open>KeyError\<close> on an object (its keys are
  strings), \<open>TypeError\<close> on everything else.
\<close>

fun subscript :: "json \<Rightarrow> nat \<Rightarrow> exn + json" where
  "subscript (JList xs) i = (if i < length xs then Inr (xs ! i) else Inl IndexError)"
| "subscript (JStr s) i = (if i < length s then Inr (JStr [s ! i]) else Inl IndexError)"
| "subscript (JDict kvs) i = Inl KeyError"
| "subscript v i = Inl TypeError"

text \<open>\<open>data.get(key)\<close>: only an object has the method.\<close>

fun dict_get :: "json \<Rightarrow> pystr \<Rightarrow> exn + json" where
  "dict_get (JDict kvs) k = Inr (case map_of kvs k of None \<Rightarrow> JNull | Some v \<Rightarrow> v)"
| "dict_get v k = Inl AttributeError"

text \<open>
  The two requests the program sends: the opensearch query with its \<open>search\<close> parameter
  (the other parameters are constants), and a GET of a page-summary URL.
\<close>

datatype request = Search_request pystr | Summary_request pystr

text \<open>
  What happens between \<open>requests.get\<close> and \<open>r.json()\<close>: the request fails (no network,
  timeout), \<open>raise_for_status\<close> rejects the status, the body is not JSON, or the body
  parses to a value.
\<close>

datatype response = Connection_failed | Status_error | Invalid_body | Body json

text \<open>
  The remote services are outside the program and may answer the same request differently
  at different times: a service is a function of the number of requests sent before and of
  the request.
\<close>

type_synonym remote = "nat \<Rightarrow> request \<Rightarrow> response"

section \<open>The cache\<close>

text \<open>
  \<open>CACHE\<close> maps a string to a dict that can hold a \<open>"title"\<close> and a \<open>"summary"\<close>.
  The state of the process is the cache together with the requests sent so far.
\<close>

record entry =
  title :: "json option"
  summary :: "json option"

record state =
  cache :: "pystr \<rightharpoonup> entry"
  calls :: "request list"

text \<open>\<open>key in CACHE and "title" in CACHE[key]\<close>, with the value found.\<close>

definition cached_title :: "(pystr \<rightharpoonup> entry) \<Rightarrow> pystr \<Rightarrow> json option" where
  "cached_title c k = (case c k of None \<Rightarrow> None | Some e \<Rightarrow> title e)"

definition cached_summary :: "(pystr \<rightharpoonup> entry) \<Rightarrow> pystr \<Rightarrow> json option" where
  "cached_summary c k = (case c k of None \<Rightarrow> None | Some e \<Rightarrow> summary e)"

text \<open>\<open>CACHE.setdefault(key, {})["title"] = v\<close> and the same for \<open>"summary"\<close>.\<close>

definition store_title :: "(pystr \<rightharpoonup> entry) \<Rightarrow> pystr \<Rightarrow> json \<Rightarrow> (pystr \<rightharpoonup> entry)" where
  "store_title c k v =
     c(k \<mapsto> (case c k of None \<Rightarrow> \<lparr>title = Some v, summary = None\<rparr> | Some e \<Rightarrow> e\<lparr>title := Some v\<rparr>))"

definition store_summary :: "(pystr \<rightharpoonup> entry) \<Rightarrow> pystr \<Rightarrow> json \<Rightarrow> (pystr \<rightharpoonup> entry)" where
  "store_summary c k v =
     c(k \<mapsto> (case c k of None \<Rightarrow> \<lparr>title = None, summary = Some v\<rparr> | Some e \<Rightarrow> e\<lparr>summary := Some v\<rparr>))"

text \<open>
  \<open>requests.get(...)\<close>, \<open>r.raise_for_status()\<close>, \<open>r.json()\<close>: the request is
  recorded, and the outcome is the parsed body or the exception raised.
\<close>

definition fetch :: "remote \<Rightarrow> request \<Rightarrow> state \<Rightarrow> (exn + json) \<times> state" where
  "fetch net req s =
     (case net (length (calls s)) req of
        Connection_failed \<Rightarrow> Inl RequestException
      | Status_error \<Rightarrow> Inl HTTPError
      | Invalid_body \<Rightarrow> Inl JSONDecodeError
      | Body v \<Rightarrow> Inr v,
      s\<lparr>calls := calls s @ [req]\<rparr>)"

section \<open>Title resolution\<close>

text \<open>
  In \<open>wiki_search_first_title\<close>, an exception anywhere in the \<open>try\<close> and an empty
  \<open>titles\<close> both end in \<open>return None\<close>; a title found is stored under \<open>q\<close> and
  returned, whatever kind of value it is.
\<close>

definition wiki_search_first_title :: "remote \<Rightarrow> pystr \<Rightarrow> state \<Rightarrow> json \<times> state" where
  "wiki_search_first_title net query s =
     (let q = strip query in
      if q = [] then (JNull, s)
      else case cached_title (cache s) q of
        Some v \<Rightarrow> (v, s)
      | None \<Rightarrow>
          (case fetch net (Search_request q) s of
             (Inl e, s1) \<Rightarrow> (JNull, s1)
           | (Inr data, s1) \<Rightarrow>
               (case subscript data 1 of
                  Inl e \<Rightarrow> (JNull, s1)
                | Inr titles \<Rightarrow>
                    if truthy titles
                    then (case subscript titles 0 of
                            Inl e \<Rightarrow> (JNull, s1)
                          | Inr t \<Rightarrow> (t, s1\<lparr>cache := store_title (cache s1) q t\<rparr>))
                    else (JNull, s1))))"

section \<open>Percent-encoding\<close>

text \<open>
  \<open>urllib.parse.quote(string, safe)\<close>: the string is encoded as UTF-8 (strictly, so a
  surrogate code point raises \<open>UnicodeEncodeError\<close>), and every byte that is not a letter,
  a digit, one of \<open>_.-~\<close> or a character of \<open>safe\<close> becomes \<open>%XX\<close> in upper-case
  hexadecimal.
\<close>

definition utf8 :: "nat \<Rightarrow> exn + nat list" where
  "utf8 c =
     (if c < 0x80 then Inr [c]
      else if c < 0x800 then Inr [0xC0 + c div 0x40, 0x80 + c mod 0x40]
      else if 0xD800 \<le> c \<and> c \<le> 0xDFFF then Inl UnicodeEncodeError
      else if c < 0x10000
        then Inr [0xE0 + c div 0x1000, 0x80 + c div 0x40 mod 0x40, 0x80 + c mod 0x40]
      else Inr [0xF0 + c div 0x40000, 0x80 + c div 0x1000 mod 0x40,
                0x80 + c div 0x40 mod 0x40, 0x80 + c mod 0x40])"

definition always_safe :: "nat \<Rightarrow> bool" where
  "always_safe b \<longleftrightarrow> ascii_alnum b \<or> b = 0x5F \<or> b = 0x2E \<or> b = 0x2D \<or> b = 0x7E"

definition hex_digit :: "nat \<Rightarrow> nat" where
  "hex_digit d = (if d < 10 then 0x30 + d else 0x41 + (d - 10))"

definition quote_byte :: "pystr \<Rightarrow> nat \<Rightarrow> pystr" where
  "quote_byte safe b =
     (if always_safe b \<or> b \<in> set safe then [b]
      else [0x25, hex_digit (b div 16), hex_digit (b mod 16)])"

fun quote :: "pystr \<Rightarrow> pystr \<Rightarrow> exn + pystr" where
  "quote safe [] = Inr []"
| "quote safe (c # cs) =
     (case utf8 c of
        Inl e \<Rightarrow> Inl e
      | Inr bs \<Rightarrow>
          (case quote safe cs of
             Inl e \<Rightarrow> Inl e
           | Inr out \<Rightarrow> Inr (concat (map (quote_byte safe) bs) @ out)))"

section \<open>Summary lookup\<close>

definition WIKI_SUMMARY_URL :: "pystr \<Rightarrow> pystr" where
  "WIKI_SUMMARY_URL safe = ascii ''https://en.wikipedia.org/api/rest_v1/page/summary/'' @ safe"

text \<open>
  \<open>wiki_get_summary\<close> receives whatever title resolution returned. The cache test and
  \<open>urllib.parse.quote\<close> stand before the \<open>try\<close>, so what they raise leaves the
  function: \<open>title in CACHE\<close> raises \<open>TypeError\<close> on a list or an object (unhashable),
  and \<open>quote\<close> raises \<open>TypeError\<close> on every other value that is not a string (the keys
  of the cache are strings, so such a value is never found in it) and
  \<open>UnicodeEncodeError\<close> on a string that holds a surrogate.
\<close>

fun wiki_get_summary :: "remote \<Rightarrow> json \<Rightarrow> state \<Rightarrow> (exn + json) \<times> state" where
  "wiki_get_summary net (JStr t) s =
     (if t = [] then (Inr JNull, s)
      else case cached_summary (cache s) t of
        Some v \<Rightarrow> (Inr v, s)
      | None \<Rightarrow>
          (case quote [] t of
             Inl e \<Rightarrow> (Inl e, s)
           | Inr safe \<Rightarrow>
               (case fetch net (Summary_request (WIKI_SUMMARY_URL safe)) s of
                  (Inl e, s1) \<Rightarrow> (Inr JNull, s1)
                | (Inr data, s1) \<Rightarrow>
                    (case dict_get data (ascii ''extract'') of
                       Inl e \<Rightarrow> (Inr JNull, s1)
                     | Inr sm \<Rightarrow>
                         if truthy sm
                         then (Inr sm, s1\<lparr>cache := store_summary (cache s1) t sm\<rparr>)
                         else (Inr JNull, s1)))))"
| "wiki_get_summary net v s = (if truthy v then (Inl TypeError, s) else (Inr JNull, s))"

section \<open>Sentence truncation\<close>

text \<open>
  \<open>re.split(r'(?<=[\.\?\!])\s+', text)\<close>. A separator is a maximal run of whitespace
  that stands right after one of \<open>.\<close>, \<open>?\<close>, \<open>!\<close>: the look-behind cannot hold inside a
  run or right after a separator, where the character before is whitespace. \<open>cur\<close> is
  the part read since the last separator.
\<close>

definition ends_sentence :: "pystr \<Rightarrow> bool" where
  "ends_sentence cur \<longleftrightarrow> cur \<noteq> [] \<and> (last cur = 0x2E \<or> last cur = 0x3F \<or> last cur = 0x21)"

function split_sentences :: "pystr \<Rightarrow> pystr \<Rightarrow> pystr list" where
  "split_sentences cur [] = [cur]"
| "split_sentences cur (c # cs) =
     (if isspace c \<and> ends_sentence cur
      then cur # split_sentences [] (dropWhile isspace cs)
      else split_sentences (cur @ [c]) cs)"
  by pat_completeness auto
termination
  by (relation "measure (\<lambda>(cur, rest). length rest)")
     (auto simp: le_imp_less_Suc length_dropWhile_le)

definition short_sentences :: "pystr \<Rightarrow> nat \<Rightarrow> pystr" where
  "short_sentences text max_sentences =
     (let parts = split_sentences [] (strip text) in
      if parts = [] then text
      else strip (join_space (take max_sentences parts)))"

section \<open>The responder\<close>

definition prompt_message :: pystr where
  "prompt_message = ascii ''Kuch type karo, main madad karunga.''"

definition no_match_message :: pystr where
  "no_match_message =
     ascii ''Maaf kijiye '' @ dash @ ascii '' mujhe Wikipedia par match nahi mila. '' @
     ascii ''Aap query thoda badal ke try kar sakte hain (e.g., 'photosynthesis' ya 'who is sachin tendulkar').''"

text \<open>
  The link of both branches:
  \<open>f"https://en.wikipedia.org/wiki/{urllib.parse.quote(title.replace(' ', '_'))}"\<close>,
  with the default \<open>safe='/'\<close>.
\<close>

definition wiki_link :: "pystr \<Rightarrow> exn + pystr" where
  "wiki_link t =
     (case quote (ascii ''/'') (replace_spaces t) of
        Inl e \<Rightarrow> Inl e
      | Inr enc \<Rightarrow> Inr (ascii ''https://en.wikipedia.org/wiki/'' @ enc))"

definition summary_answer :: "pystr \<Rightarrow> pystr \<Rightarrow> pystr \<Rightarrow> pystr" where
  "summary_answer t short link =
     ascii ''**'' @ t @ ascii ''**'' @ [0x0A] @ short @ [0x0A, 0x0A] @
     ascii ''Agar aur padhna ho: '' @ link"

definition no_summary_answer :: "pystr \<Rightarrow> pystr \<Rightarrow> pystr" where
  "no_summary_answer t link =
     ascii ''Maine ek page dhoondh liya: '' @ t @ ascii '' '' @ dash @
     ascii '' lekin short summary fetch nahi hui.'' @ [0x0A] @
     ascii ''Aap full article yahan dekh sakte hain: '' @ link"

text \<open>
  The part of \<open>answer_query\<close> after a title and the result of \<open>wiki_get_summary\<close> are
  known. \<open>summary.strip()\<close> in \<open>short_sentences\<close> raises \<open>AttributeError\<close> on a
  summary that is not a string, and so does \<open>title.replace\<close> on a title that is not a
  string (which cannot come here: on such a title \<open>wiki_get_summary\<close> has raised).
\<close>

fun format_answer :: "json \<Rightarrow> json \<Rightarrow> exn + pystr" where
  "format_answer (JStr t) sm =
     (if truthy sm
      then (case sm of
              JStr text \<Rightarrow>
                (case wiki_link t of
                   Inl e \<Rightarrow> Inl e
                 | Inr link \<Rightarrow> Inr (summary_answer t (short_sentences text 2) link))
            | _ \<Rightarrow> Inl AttributeError)
      else (case wiki_link t of
              Inl e \<Rightarrow> Inl e
            | Inr link \<Rightarrow> Inr (no_summary_answer t link)))"
| "format_answer v sm = Inl AttributeError"

text \<open>Steps 2 and 3 of \<open>answer_query\<close>: the search and what follows it.\<close>

definition lookup_answer :: "remote \<Rightarrow> pystr \<Rightarrow> state \<Rightarrow> (exn + pystr) \<times> state" where
  "lookup_answer net user_input s =
     (case wiki_search_first_title net user_input s of
        (t, s1) \<Rightarrow>
          if \<not> truthy t then (Inr no_match_message, s1)
          else (case wiki_get_summary net t s1 of
                  (Inl e, s2) \<Rightarrow> (Inl e, s2)
                | (Inr sm, s2) \<Rightarrow> (format_answer t sm, s2)))"

text \<open>
  \<open>if st:\<close> holds for a reply that is neither \<open>None\<close> nor the empty string. The result
  is the string returned or the exception that leaves the function, with the state after
  the call.
\<close>

definition answer_query :: "(nat \<Rightarrow> bool) \<Rightarrow> remote \<Rightarrow> pystr \<Rightarrow> state \<Rightarrow> (exn + pystr) \<times> state" where
  "answer_query U net user_input s =
     (let user_input = strip user_input in
      if user_input = [] then (Inr prompt_message, s)
      else case check_small_talk U user_input of
        None \<Rightarrow> lookup_answer net user_input s
      | Some st \<Rightarrow> if st \<noteq> [] then (Inr st, s) else lookup_answer net user_input s)"

text \<open>
  The state of a fresh process, and a session: a sequence of calls of the three functions
  that read and write the cache.
\<close>

definition initial :: state where
  "initial = \<lparr>cache = Map.empty, calls = []\<rparr>"

datatype call = Search_title pystr | Get_summary json | Answer pystr

fun run_call :: "(nat \<Rightarrow> bool) \<Rightarrow> remote \<Rightarrow> call \<Rightarrow> state \<Rightarrow> state" where
  "run_call U net (Search_title query) s = snd (wiki_search_first_title net query s)"
| "run_call U net (Get_summary t) s = snd (wiki_get_summary net t s)"
| "run_call U net (Answer user_input) s = snd (answer_query U net user_input s)"

definition run_calls :: "(nat \<Rightarrow> bool) \<Rightarrow> remote \<Rightarrow> call list \<Rightarrow> state \<Rightarrow> state" where
  "run_calls U net cs s = fold (run_call U net) cs s"

definition is_search :: "request \<Rightarrow> bool" where
  "is_search r = (case r of Search_request q \<Rightarrow> True | Summary_request u \<Rightarrow> False)"

definition is_summary :: "request \<Rightarrow> bool" where
  "is_summary r = (case r of Search_request q \<Rightarrow> False | Summary_request u \<Rightarrow> True)"

section \<open>Predicates of the properties proved below\<close>

text \<open>
  A response of the summary service from which \<open>wiki_get_summary\<close> gets no extract: the
  request failed, or the body is not an object, has no \<open>"extract"\<close>, or has an empty one.
\<close>

definition no_extract :: "response \<Rightarrow> bool" where
  "no_extract r =
     (case r of
        Body v \<Rightarrow> (case dict_get v (ascii ''extract'') of Inl e \<Rightarrow> True | Inr sm \<Rightarrow> \<not> truthy sm)
      | _ \<Rightarrow> True)"

text \<open>The invariant of the cache: nothing is stored under the empty string.\<close>

definition keys_nonempty :: "state \<Rightarrow> bool" where
  "keys_nonempty s \<longleftrightarrow>
     (\<forall>k. (cached_title (cache s) k \<noteq> None \<longrightarrow> k \<noteq> []) \<and>
          (cached_summary (cache s) k \<noteq> None \<longrightarrow> k \<noteq> []))"

text \<open>
  Text-only services and caches. A string can be percent-encoded when it holds no surrogate.
  A title is text when it is such a string or a false value, a summary when it is a string
  or a false value; a response is text-only when the title or the extract the program would
  take from it is; a cache is text-only when every value it holds is.
\<close>

definition encodable :: "pystr \<Rightarrow> bool" where
  "encodable t \<longleftrightarrow> list_all (\<lambda>c. \<not> (0xD800 \<le> c \<and> c \<le> 0xDFFF)) t"

fun title_text :: "json \<Rightarrow> bool" where
  "title_text (JStr t) = encodable t"
| "title_text v = (\<not> truthy v)"

fun summary_text :: "json \<Rightarrow> bool" where
  "summary_text (JStr t) = True"
| "summary_text v = (\<not> truthy v)"

definition search_texts :: "response \<Rightarrow> bool" where
  "search_texts r =
     (case r of
        Body data \<Rightarrow>
          (case subscript data 1 of
             Inl e \<Rightarrow> True
           | Inr titles \<Rightarrow>
               \<not> truthy titles \<or> (case subscript titles 0 of Inl e \<Rightarrow> True | Inr t \<Rightarrow> title_text t))
      | _ \<Rightarrow> True)"

definition summary_texts :: "response \<Rightarrow> bool" where
  "summary_texts r =
     (case r of
        Body data \<Rightarrow>
          (case dict_get data (ascii ''extract'') of Inl e \<Rightarrow> True | Inr sm \<Rightarrow> summary_text sm)
      | _ \<Rightarrow> True)"

definition texts_only :: "remote \<Rightarrow> bool" where
  "texts_only net \<longleftrightarrow>
     (\<forall>n q. search_texts (net n (Search_request q))) \<and>
     (\<forall>n u. summary_texts (net n (Summary_request u)))"

definition cache_texts :: "state \<Rightarrow> bool" where
  "cache_texts s \<longleftrightarrow>
     (\<forall>k v. cached_title (cache s) k = Some v \<longrightarrow> title_text v) \<and>
     (\<forall>k v. cached_summary (cache s) k = Some v \<longrightarrow> summary_text v)"

text \<open>
  The words of the specification on sentences. A break is one of \<open>.\<close>, \<open>?\<close>,
  \<open>!\<close> immediately followed by whitespace; a sentence starts with a character that is
  not whitespace, ends with one of the three marks and holds no break; \<open>spaces\<close> is a
  non-empty run of whitespace.
\<close>

fun has_break :: "pystr \<Rightarrow> bool" where
  "has_break (c # d # cs) =
     (((c = 0x2E \<or> c = 0x3F \<or> c = 0x21) \<and> isspace d) \<or> has_break (d # cs))"
| "has_break cs = False"

definition sentence :: "pystr \<Rightarrow> bool" where
  "sentence a \<longleftrightarrow> a \<noteq> [] \<and> \<not> isspace (hd a) \<and> ends_sentence a \<and> \<not> has_break a"

definition spaces :: "pystr \<Rightarrow> bool" where
  "spaces w \<longleftrightarrow> w \<noteq> [] \<and> list_all isspace w"

section \<open>Percent-encoding, as the standards word it\<close>







section \<open>Occurrences of a word in a text\<close>

text \<open>
  \<open>prev_after p pre\<close> is the character before the position reached from a position with
  \<open>p\<close> before it by reading \<open>pre\<close>. \<open>occurs U lb w rb s\<close>: somewhere in \<open>s\<close>
  stands a text that the literal \<open>w\<close> matches, with a \<open>\b\<close> before it when \<open>lb\<close>
  and after it when \<open>rb\<close>.
\<close>

fun prev_after :: "nat option \<Rightarrow> pystr \<Rightarrow> nat option" where
  "prev_after p [] = p"
| "prev_after p (c # cs) = prev_after (Some c) cs"

definition occurs :: "(nat \<Rightarrow> bool) \<Rightarrow> bool \<Rightarrow> pystr \<Rightarrow> bool \<Rightarrow> pystr \<Rightarrow> bool" where
  "occurs U lb w rb s \<longleftrightarrow>
     (\<exists>pre m post. s = pre @ m @ post \<and> list_all2 ci_match w m \<and>
        (lb \<longrightarrow> boundary U (prev_after None pre, m @ post)) \<and>
        (rb \<longrightarrow> boundary U (prev_after None (pre @ m), post)))"

text \<open>A word that begins and ends with an ASCII letter.\<close>

definition lettered :: "pystr \<Rightarrow> bool" where
  "lettered w \<longleftrightarrow> w \<noteq> [] \<and> ascii_letter (hd w) \<and> ascii_letter (last w)"

text \<open>
  The tokens of a pattern are its literals. A token stands in \<open>s\<close> as a standalone word
  when \<open>s\<close> holds it, in either case of its ASCII letters, with no word character
  right before it and none right after it.
\<close>

fun rx_tokens :: "rx \<Rightarrow> pystr list" where
  "rx_tokens (Lit w) = [w]"
| "rx_tokens WordB = []"
| "rx_tokens (Seq rs) = concat (map rx_tokens rs)"
| "rx_tokens (Alts rs) = concat (map rx_tokens rs)"

definition standalone :: "(nat \<Rightarrow> bool) \<Rightarrow> pystr \<Rightarrow> pystr \<Rightarrow> bool" where
  "standalone U w s \<longleftrightarrow>
     (\<exists>pre m post. s = pre @ m @ post \<and> map ascii_lower m = map ascii_lower w \<and>
        (pre = [] \<or> \<not> is_word U (last pre)) \<and> (post = [] \<or> \<not> is_word U (hd post)))"

section \<open>Example sessions\<close>

text \<open>
  Inputs and remote services for the concrete sessions below. \<open>ascii_only\<close> is a table
  with no alphanumeric code point beyond ASCII; the inputs here are ASCII.
\<close>

definition ascii_only :: "nat \<Rightarrow> bool" where
  "ascii_only c = False"

definition photosynthesis :: pystr where
  "photosynthesis = ascii ''photosynthesis''"

definition Photosynthesis :: pystr where
  "Photosynthesis = ascii ''Photosynthesis''"

text \<open>No network: every request fails.\<close>

definition offline :: remote where
  "offline n req = Connection_failed"

text \<open>
  The search service answers with one title. The summary service fails while fewer than
  two requests have been sent in the session and answers with a three-sentence extract
  afterwards.
\<close>

definition recovering :: remote where
  "recovering n req =
     (case req of
        Search_request q \<Rightarrow> Body (JList [JStr q, JList [JStr Photosynthesis]])
      | Summary_request u \<Rightarrow>
          if n < 2 then Connection_failed
          else Body (JDict [(ascii ''extract'', JStr (ascii ''A. B. C.''))]))"

text \<open>Both services answer at once.\<close>

definition healthy :: remote where
  "healthy n req =
     (case req of
        Search_request q \<Rightarrow> Body (JList [JStr q, JList [JStr Photosynthesis]])
      | Summary_request u \<Rightarrow> Body (JDict [(ascii ''extract'', JStr (ascii ''A. B. C.''))]))"

text \<open>
  The search service answers with valid JSON of the expected shape whose first title is a
  number: \<open>["photosynthesis", [42]]\<close>.
\<close>

definition malformed :: remote where
  "malformed n req = Body (JList [JStr photosynthesis, JList [JInt 42]])"

text \<open>The search service names \<open>None\<close> as the first title: \<open>[q, [null]]\<close>.\<close>

definition nameless :: remote where
  "nameless n req = Body (JList [JStr photosynthesis, JList [JNull]])"





text \<open>The states the example sessions go through.\<close>

definition after_null_title :: state where
  "after_null_title = \<lparr>cache = store_title Map.empty photosynthesis JNull,
     calls = [Search_request photosynthesis]\<rparr>"

definition after_search :: state where
  "after_search = \<lparr>cache = store_title Map.empty photosynthesis (JStr Photosynthesis),
     calls = [Search_request photosynthesis]\<rparr>"

definition after_failure :: state where
  "after_failure = \<lparr>cache = store_title Map.empty photosynthesis (JStr Photosynthesis),
     calls = [Search_request photosynthesis, Summary_request (WIKI_SUMMARY_URL Photosynthesis)]\<rparr>"

definition after_summary :: state where
  "after_summary =
     \<lparr>cache = store_summary (store_title Map.empty photosynthesis (JStr Photosynthesis))
                Photosynthesis (JStr (ascii ''A. B. C.'')),
      calls = [Search_request photosynthesis, Summary_request (WIKI_SUMMARY_URL Photosynthesis),
               Summary_request (WIKI_SUMMARY_URL Photosynthesis)]\<rparr>"

definition Photosynthesis_link_text :: pystr where
  "Photosynthesis_link_text = ascii ''https://en.wikipedia.org/wiki/'' @ Photosynthesis"

definition healthy_state :: state where
  "healthy_state =
     \<lparr>cache = store_summary (store_title Map.empty photosynthesis (JStr Photosynthesis))
                Photosynthesis (JStr (ascii ''A. B. C.'')),
      calls = [Search_request photosynthesis, Summary_request (WIKI_SUMMARY_URL Photosynthesis)]\<rparr>"

section \<open>Facts about \<open>strip\<close>\<close>

lemma strip_Nil_iff: "strip s = [] \<longleftrightarrow> (\<forall>c\<in>set s. isspace c)"
proof -
  have "strip s = [] \<longleftrightarrow> dropWhile isspace (dropWhile isspace s) = []"
    unfolding strip_def by (simp only: rev_is_Nil_conv dropWhile_eq_Nil_conv set_rev)
  also have "\<dots> \<longleftrightarrow> dropWhile isspace s = []"
    by simp
  finally show ?thesis
    by (simp only: dropWhile_eq_Nil_conv)
qed

lemma dropWhile_rev_keeps_head:
  assumes "xs \<noteq> []" and "\<not> P (hd xs)"
  shows "dropWhile P (rev xs) \<noteq> []" and "last (dropWhile P (rev xs)) = hd xs"
proof -
  from assms have "hd xs \<in> set (rev xs)" by simp
  with assms(2) show ne: "dropWhile P (rev xs) \<noteq> []"
    by (auto simp only: dropWhile_eq_Nil_conv)
  then have "last (dropWhile P (rev xs)) = last (rev xs)"
    by (metis last_appendR takeWhile_dropWhile_id)
  then show "last (dropWhile P (rev xs)) = hd xs"
    using assms(1) by (simp add: last_rev)
qed

lemma strip_no_space_ends:
  assumes "strip s \<noteq> []"
  shows "\<not> isspace (hd (strip s))" and "\<not> isspace (last (strip s))"
proof -
  let ?d = "dropWhile isspace s"
  from assms have d: "?d \<noteq> []"
    by (simp add: strip_Nil_iff)
  then have hd_d: "\<not> isspace (hd ?d)"
    by (rule hd_dropWhile)
  from assms have r: "dropWhile isspace (rev ?d) \<noteq> []"
    by (simp add: strip_def)
  have "hd (strip s) = last (dropWhile isspace (rev ?d))"
    using r by (simp add: strip_def hd_rev)
  also have "\<dots> = hd ?d"
    using d hd_d by (rule dropWhile_rev_keeps_head)
  finally show "\<not> isspace (hd (strip s))"
    using hd_d by simp
  have "last (strip s) = hd (dropWhile isspace (rev ?d))"
    using r by (simp add: strip_def last_rev)
  then show "\<not> isspace (last (strip s))"
    using r hd_dropWhile by metis
qed

lemma strip_fixed:
  assumes "s = [] \<or> (\<not> isspace (hd s) \<and> \<not> isspace (last s))"
  shows "strip s = s"
proof (cases "s = []")
  case True
  then show ?thesis by (simp add: strip_def)
next
  case False
  with assms have h: "\<not> isspace (hd s)" and l: "\<not> isspace (last s)" by auto
  from False h have "dropWhile isspace s = s"
    by (cases s) auto
  moreover from False l have "dropWhile isspace (rev s) = rev s"
    by (cases "rev s") (auto simp: last_rev)
  ultimately show ?thesis by (simp add: strip_def)
qed

lemma strip_idem: "strip (strip s) = strip s"
  using strip_no_space_ends [of s] by (intro strip_fixed) blast

section \<open>Empty input\<close>

text \<open>
  C6. An input that is empty or consists of whitespace only is answered with the fixed
  prompt message; the state after the call is the state before it, so no request was sent
  and nothing was written to the cache.
\<close>

theorem empty_input_prompt:
  "\<forall>c\<in>set user_input. isspace c \<Longrightarrow> answer_query U net user_input s = (Inr prompt_message, s)"
  by (simp add: answer_query_def strip_Nil_iff)

theorem empty_input_prompt_witness:
  "list_all isspace [0x20, 0x09, 0x3000] \<and>
   answer_query (\<lambda>c. False) (\<lambda>n r. Connection_failed) [0x20, 0x09, 0x3000] initial =
     (Inr prompt_message, initial)"
  using empty_input_prompt [of "[0x20, 0x09, 0x3000]" "\<lambda>c. False" "\<lambda>n r. Connection_failed" initial]
  by (simp add: isspace_def)

section \<open>Facts about the cache and the two lookups\<close>

lemma cached_title_store_title [simp]:
  "cached_title (store_title c k v) k' = (if k' = k then Some v else cached_title c k')"
  by (simp add: cached_title_def store_title_def split: option.splits)

lemma cached_summary_store_title [simp]:
  "cached_summary (store_title c k v) k' = cached_summary c k'"
  by (simp add: cached_summary_def store_title_def split: option.splits)

lemma cached_title_store_summary [simp]:
  "cached_title (store_summary c k v) k' = cached_title c k'"
  by (simp add: cached_title_def store_summary_def split: option.splits)

lemma cached_summary_store_summary [simp]:
  "cached_summary (store_summary c k v) k' = (if k' = k then Some v else cached_summary c k')"
  by (simp add: cached_summary_def store_summary_def split: option.splits)

lemma fetch_state [simp]: "snd (fetch net req s) = s\<lparr>calls := calls s @ [req]\<rparr>"
  by (simp add: fetch_def)

text \<open>Title resolution: what it sends, what it stores, what it returns.\<close>

lemma search_cached:
  assumes "strip query \<noteq> []" and "cached_title (cache s) (strip query) = Some v"
  shows "wiki_search_first_title net query s = (v, s)"
  using assms by (simp add: wiki_search_first_title_def)

lemma search_effect:
  assumes "wiki_search_first_title net query s = (t, s1)"
  shows "calls s1 = calls s \<or> calls s1 = calls s @ [Search_request (strip query)]"
    and "cached_summary (cache s1) k = cached_summary (cache s) k"
    and "cached_title (cache s) k = Some v \<Longrightarrow> cached_title (cache s1) k = Some v"
    and "cached_title (cache s1) k = Some v \<Longrightarrow>
           cached_title (cache s) k = Some v \<or> (k = strip query \<and> k \<noteq> [] \<and> v = t)"
    and "truthy t \<Longrightarrow> strip query \<noteq> [] \<and> cached_title (cache s1) (strip query) = Some t"
  using assms
  by (auto simp: wiki_search_first_title_def Let_def fetch_def
           split: if_splits option.splits prod.splits sum.splits)

lemma search_depends:
  assumes "calls s' = calls s" and "\<And>k. cached_title (cache s') k = cached_title (cache s) k"
  shows "fst (wiki_search_first_title net query s') = fst (wiki_search_first_title net query s)"
  using assms
  by (auto simp: wiki_search_first_title_def Let_def fetch_def
           split: if_splits option.splits prod.splits sum.splits)

lemma summary_effect:
  assumes "wiki_get_summary net t s = (r, s2)"
  shows "calls s2 = calls s \<or> (\<exists>u. calls s2 = calls s @ [Summary_request u])"
    and "cached_title (cache s2) k = cached_title (cache s) k"
    and "cached_summary (cache s) k = Some v \<Longrightarrow> cached_summary (cache s2) k = Some v"
    and "cached_summary (cache s2) k = Some v \<Longrightarrow>
           cached_summary (cache s) k = Some v \<or> (k \<noteq> [] \<and> t = JStr k \<and> r = Inr v)"
    and "r = Inr sm \<Longrightarrow> truthy sm \<Longrightarrow> \<exists>k. k \<noteq> [] \<and> t = JStr k \<and> cached_summary (cache s2) k = Some sm"
  using assms
  by (cases t; auto simp: fetch_def
           split: if_splits option.splits prod.splits sum.splits)+

lemma summary_cached:
  assumes "k \<noteq> []" and "cached_summary (cache s) k = Some v"
  shows "wiki_get_summary net (JStr k) s = (Inr v, s)"
  using assms by simp

lemma utf8_ok: "(\<exists>bs. utf8 c = Inr bs) \<longleftrightarrow> \<not> (0xD800 \<le> c \<and> c \<le> 0xDFFF)"
  by (auto simp: utf8_def)

lemma quote_ok: "(\<exists>out. quote safe t = Inr out) \<longleftrightarrow> (\<forall>c\<in>set t. \<not> (0xD800 \<le> c \<and> c \<le> 0xDFFF))"
proof (induction t)
  case Nil
  show ?case by simp
next
  case (Cons c cs)
  show ?case
  proof (cases "utf8 c")
    case (Inl e)
    with utf8_ok [of c] show ?thesis by auto
  next
    case (Inr bs)
    with utf8_ok [of c] Cons show ?thesis
      by (cases "quote safe cs") auto
  qed
qed

lemma quote_replace_spaces:
  assumes "quote safe t = Inr out"
  shows "\<exists>enc. quote safe' (replace_spaces t) = Inr enc"
proof -
  from assms have "\<forall>c\<in>set t. \<not> (0xD800 \<le> c \<and> c \<le> 0xDFFF)"
    using quote_ok [of safe t] by blast
  then have "\<forall>c\<in>set (replace_spaces t). \<not> (0xD800 \<le> c \<and> c \<le> 0xDFFF)"
    by (auto simp: replace_spaces_def)
  then show ?thesis
    using quote_ok [of safe' "replace_spaces t"] by blast
qed




lemma quote_plain:
  "\<forall>c\<in>set t. always_safe c \<or> (c < 0x80 \<and> c \<in> set safe) \<Longrightarrow> quote safe t = Inr t"
proof (induction t)
  case Nil
  show ?case by simp
next
  case (Cons c cs)
  then have c: "always_safe c \<or> (c < 0x80 \<and> c \<in> set safe)" and cs: "quote safe cs = Inr cs"
    by auto
  from c have "c < 0x80"
    by (auto simp: always_safe_def ascii_alnum_def)
  then have "utf8 c = Inr [c]"
    by (simp add: utf8_def)
  with c cs show ?case
    by (auto simp: quote_byte_def)
qed


section \<open>Evaluating the examples\<close>

lemmas char_defs =
  is_word_def ascii_alnum_def ci_match_def ascii_letter_def ascii_lower_def isspace_def

lemmas table_defs =
  check_small_talk_def SMALL_TALK_def greeting_def howare_def imfine_def thanks_def
  farewell_def help_info_def word_group_def search_def

lemma photosynthesis_stripped: "strip photosynthesis = photosynthesis" "photosynthesis \<noteq> []"
  by (simp_all add: photosynthesis_def ascii_def strip_def isspace_def)

lemma photosynthesis_no_small_talk: "check_small_talk U photosynthesis = None"
  by (simp add: photosynthesis_def ascii_def table_defs char_defs)

lemma Photosynthesis_quote: "quote safe Photosynthesis = Inr Photosynthesis"
  by (rule quote_plain) (simp add: Photosynthesis_def ascii_def always_safe_def ascii_alnum_def)

lemma Photosynthesis_link:
  "wiki_link Photosynthesis = Inr (ascii ''https://en.wikipedia.org/wiki/'' @ Photosynthesis)"
proof -
  have "replace_spaces Photosynthesis = Photosynthesis"
    by (simp add: Photosynthesis_def ascii_def replace_spaces_def)
  then show ?thesis
    by (simp add: wiki_link_def Photosynthesis_quote)
qed

lemma Photosynthesis_nonempty: "Photosynthesis \<noteq> []"
  by (simp add: Photosynthesis_def ascii_def)

section \<open>No title\<close>

text \<open>
  C5. When title resolution yields no title (a value that is \<open>None\<close> or otherwise false:
  the search failed, returned no titles, or an empty title is cached), \<open>answer_query\<close>
  returns the fixed no-match message and stops there: the state returned is the one title
  resolution left, no summary request has been added to the requests sent, and the answer
  does not depend on what summaries the cache holds (every state with the same cached titles
  and the same requests sent gets the same answer).
\<close>

theorem no_title_no_summary_lookup:
  assumes "strip user_input \<noteq> []"
    and "check_small_talk U (strip user_input) = None"
    and "wiki_search_first_title net (strip user_input) s = (t, s1)"
    and "\<not> truthy t"
  shows "answer_query U net user_input s = (Inr no_match_message, s1) \<and>
         filter is_summary (calls s1) = filter is_summary (calls s) \<and>
         (\<forall>s'. calls s' = calls s \<and> (\<forall>k. cached_title (cache s') k = cached_title (cache s) k) \<longrightarrow>
               fst (answer_query U net user_input s') = Inr no_match_message)"
proof (intro conjI allI impI)
  show "answer_query U net user_input s = (Inr no_match_message, s1)"
    using assms by (simp add: answer_query_def lookup_answer_def)
  show "filter is_summary (calls s1) = filter is_summary (calls s)"
    using search_effect(1) [OF assms(3)] by (auto simp: is_summary_def)
  fix s' :: state
  assume same: "calls s' = calls s \<and> (\<forall>k. cached_title (cache s') k = cached_title (cache s) k)"
  then have "fst (wiki_search_first_title net (strip user_input) s') =
             fst (wiki_search_first_title net (strip user_input) s)"
    by (intro search_depends) auto
  with assms(3,4) have "\<not> truthy (fst (wiki_search_first_title net (strip user_input) s'))"
    by simp
  with assms(1,2) show "fst (answer_query U net user_input s') = Inr no_match_message"
    by (cases "wiki_search_first_title net (strip user_input) s'")
       (simp add: answer_query_def lookup_answer_def)
qed

lemma offline_search:
  "wiki_search_first_title offline photosynthesis initial =
     (JNull, \<lparr>cache = Map.empty, calls = [Search_request photosynthesis]\<rparr>)"
  by (simp add: wiki_search_first_title_def photosynthesis_stripped initial_def cached_title_def
        fetch_def offline_def)

theorem no_title_no_summary_lookup_witness:
  "answer_query ascii_only offline photosynthesis initial =
     (Inr no_match_message, \<lparr>cache = Map.empty, calls = [Search_request photosynthesis]\<rparr>) \<and>
   filter is_summary [Search_request photosynthesis] = []"
  using no_title_no_summary_lookup [of photosynthesis ascii_only offline initial JNull
      "\<lparr>cache = Map.empty, calls = [Search_request photosynthesis]\<rparr>"]
  by (simp add: photosynthesis_stripped photosynthesis_no_small_talk offline_search is_summary_def)

section \<open>A title without a summary\<close>

lemma cached_empty [simp]: "cached_title Map.empty k = None" "cached_summary Map.empty k = None"
  by (simp_all add: cached_title_def cached_summary_def)

lemma summary_no_extract:
  assumes "t \<noteq> []" and "cached_summary (cache s1) t = None" and "quote [] t = Inr safe"
    and "no_extract (net (length (calls s1)) (Summary_request (WIKI_SUMMARY_URL safe)))"
  shows "wiki_get_summary net (JStr t) s1 =
           (Inr JNull, s1\<lparr>calls := calls s1 @ [Summary_request (WIKI_SUMMARY_URL safe)]\<rparr>)"
  using assms
  by (auto simp: fetch_def no_extract_def split: response.splits sum.splits)

text \<open>
  C8. When a title is resolved (a non-empty string \<open>t\<close>), its summary is not cached, and
  the summary service, asked for the page of \<open>t\<close>, fails or returns no extract,
  \<open>answer_query\<close> returns the message that names \<open>t\<close>, says that the short summary
  could not be fetched, and ends with the link built from \<open>t\<close>. (That the request URL
  can be built is a hypothesis: a title holding a surrogate raises before any request.)
\<close>

theorem title_without_summary:
  assumes "strip user_input \<noteq> []"
    and "check_small_talk U (strip user_input) = None"
    and "wiki_search_first_title net (strip user_input) s = (JStr t, s1)"
    and "t \<noteq> []"
    and "cached_summary (cache s1) t = None"
    and "quote [] t = Inr safe"
    and "no_extract (net (length (calls s1)) (Summary_request (WIKI_SUMMARY_URL safe)))"
  shows "\<exists>enc. quote (ascii ''/'') (replace_spaces t) = Inr enc \<and>
           answer_query U net user_input s =
             (Inr (ascii ''Maine ek page dhoondh liya: '' @ t @ ascii '' '' @ dash @
                   ascii '' lekin short summary fetch nahi hui.'' @ [0x0A] @
                   ascii ''Aap full article yahan dekh sakte hain: '' @
                   ascii ''https://en.wikipedia.org/wiki/'' @ enc),
              s1\<lparr>calls := calls s1 @ [Summary_request (WIKI_SUMMARY_URL safe)]\<rparr>)"
proof -
  from assms(6) obtain enc where enc: "quote (ascii ''/'') (replace_spaces t) = Inr enc"
    using quote_replace_spaces by blast
  have "wiki_get_summary net (JStr t) s1 =
          (Inr JNull, s1\<lparr>calls := calls s1 @ [Summary_request (WIKI_SUMMARY_URL safe)]\<rparr>)"
    using assms(4-7) by (rule summary_no_extract)
  with assms(1-4) enc show ?thesis
    by (simp add: answer_query_def lookup_answer_def wiki_link_def no_summary_answer_def)
qed

lemma recovering_search:
  "wiki_search_first_title recovering photosynthesis initial =
     (JStr Photosynthesis,
      \<lparr>cache = store_title Map.empty photosynthesis (JStr Photosynthesis),
       calls = [Search_request photosynthesis]\<rparr>)"
  by (simp add: wiki_search_first_title_def photosynthesis_stripped initial_def cached_title_def
        fetch_def recovering_def)

theorem title_without_summary_witness:
  "answer_query ascii_only recovering photosynthesis initial =
     (Inr (ascii ''Maine ek page dhoondh liya: '' @ Photosynthesis @ ascii '' '' @ dash @
           ascii '' lekin short summary fetch nahi hui.'' @ [0x0A] @
           ascii ''Aap full article yahan dekh sakte hain: '' @
           ascii ''https://en.wikipedia.org/wiki/'' @ Photosynthesis),
      \<lparr>cache = store_title Map.empty photosynthesis (JStr Photosynthesis),
       calls = [Search_request photosynthesis, Summary_request (WIKI_SUMMARY_URL Photosynthesis)]\<rparr>)"
proof -
  have link: "quote (ascii ''/'') (replace_spaces Photosynthesis) = Inr Photosynthesis"
    using Photosynthesis_link by (simp add: wiki_link_def split: sum.splits)
  have "cached_summary (store_title Map.empty photosynthesis (JStr Photosynthesis)) Photosynthesis = None"
    by simp
  moreover have "no_extract (recovering 1 (Summary_request (WIKI_SUMMARY_URL Photosynthesis)))"
    by (simp add: no_extract_def recovering_def)
  ultimately show ?thesis
    using title_without_summary [of photosynthesis ascii_only recovering initial Photosynthesis
        "\<lparr>cache = store_title Map.empty photosynthesis (JStr Photosynthesis),
          calls = [Search_request photosynthesis]\<rparr>" Photosynthesis] link
    by (simp add: photosynthesis_stripped photosynthesis_no_small_talk recovering_search
          Photosynthesis_nonempty Photosynthesis_quote)
qed

section \<open>The example sessions, step by step\<close>

lemma three_sentences: "short_sentences (ascii ''A. B. C.'') 2 = ascii ''A. B.''"
  by (simp add: short_sentences_def ascii_def strip_def isspace_def ends_sentence_def)

lemma three_sentences_nonempty: "ascii ''A. B. C.'' \<noteq> []"
  by (simp add: ascii_def)

lemma recovering_first:
  "answer_query U recovering photosynthesis initial =
     (Inr (no_summary_answer Photosynthesis Photosynthesis_link_text), after_failure)"
  by (simp add: answer_query_def lookup_answer_def photosynthesis_stripped
        photosynthesis_no_small_talk recovering_search Photosynthesis_nonempty
        Photosynthesis_quote fetch_def recovering_def Photosynthesis_link
        after_failure_def Photosynthesis_link_text_def)

lemma recovering_second:
  "answer_query U recovering photosynthesis after_failure =
     (Inr (summary_answer Photosynthesis (ascii ''A. B.'') Photosynthesis_link_text), after_summary)"
  by (simp add: answer_query_def lookup_answer_def photosynthesis_stripped
        photosynthesis_no_small_talk wiki_search_first_title_def Photosynthesis_nonempty
        Photosynthesis_quote fetch_def recovering_def Photosynthesis_link three_sentences
        three_sentences_nonempty
        after_failure_def after_summary_def Photosynthesis_link_text_def)

lemma healthy_search:
  "wiki_search_first_title healthy photosynthesis initial = (JStr Photosynthesis, after_search)"
  by (simp add: wiki_search_first_title_def photosynthesis_stripped initial_def
        fetch_def healthy_def after_search_def)

lemma healthy_summary:
  "wiki_get_summary healthy (JStr Photosynthesis) after_search =
     (Inr (JStr (ascii ''A. B. C.'')), healthy_state)"
  by (simp add: Photosynthesis_nonempty Photosynthesis_quote fetch_def healthy_def
        three_sentences_nonempty after_search_def healthy_state_def)

lemma format_three_sentences:
  "format_answer (JStr Photosynthesis) (JStr (ascii ''A. B. C.'')) =
     Inr (summary_answer Photosynthesis (ascii ''A. B.'') Photosynthesis_link_text)"
  by (simp add: three_sentences_nonempty Photosynthesis_link three_sentences
        Photosynthesis_link_text_def)

lemma healthy_first:
  "answer_query U healthy photosynthesis initial =
     (Inr (summary_answer Photosynthesis (ascii ''A. B.'') Photosynthesis_link_text), healthy_state)"
  by (simp add: answer_query_def lookup_answer_def photosynthesis_stripped
        photosynthesis_no_small_talk healthy_search healthy_summary Photosynthesis_nonempty
        format_three_sentences del: format_answer.simps wiki_get_summary.simps)

lemma healthy_state_cached:
  "cached_title (cache healthy_state) photosynthesis = Some (JStr Photosynthesis)"
  "cached_summary (cache healthy_state) Photosynthesis = Some (JStr (ascii ''A. B. C.''))"
  by (simp_all add: healthy_state_def)

lemma nameless_first:
  "answer_query U nameless photosynthesis initial = (Inr no_match_message, after_null_title)"
  by (simp add: answer_query_def lookup_answer_def photosynthesis_stripped
        photosynthesis_no_small_talk wiki_search_first_title_def initial_def fetch_def
        nameless_def after_null_title_def)

section \<open>The reference link\<close>

























section \<open>A malformed response\<close>

text \<open>
  With services that answer with text only, \<open>answer_query\<close> returns a string from every
  text-only cache and leaves a text-only cache: every failure of a request, every body that
  is not JSON or has another shape is answered with one of the fallback messages.
\<close>

lemma encodable_quote: "encodable t \<Longrightarrow> \<exists>out. quote safe t = Inr out"
  using quote_ok [of safe t] by (simp add: encodable_def list_all_iff)

lemma encodable_link: "encodable t \<Longrightarrow> \<exists>link. wiki_link t = Inr link"
proof -
  assume "encodable t"
  then obtain out where "quote [] t = Inr out"
    using encodable_quote by blast
  then obtain enc where "quote (ascii ''/'') (replace_spaces t) = Inr enc"
    using quote_replace_spaces by blast
  then show ?thesis
    by (simp add: wiki_link_def)
qed

lemma search_result:
  assumes "wiki_search_first_title net query s = (t, s1)"
  shows "(t = JNull \<and> cache s1 = cache s) \<or>
         (cached_title (cache s) (strip query) = Some t \<and> s1 = s) \<or>
         (\<exists>data titles. net (length (calls s)) (Search_request (strip query)) = Body data \<and>
            subscript data 1 = Inr titles \<and> truthy titles \<and> subscript titles 0 = Inr t \<and>
            cache s1 = store_title (cache s) (strip query) t)"
  using assms
  by (auto simp: wiki_search_first_title_def Let_def fetch_def
           split: if_splits option.splits prod.splits sum.splits response.splits)

lemma search_texts_kept:
  assumes "wiki_search_first_title net query s = (t, s1)" and "cache_texts s" and "texts_only net"
  shows "title_text t" and "cache_texts s1"
proof -
  from search_result [OF assms(1)]
  consider "t = JNull" "cache s1 = cache s"
    | "cached_title (cache s) (strip query) = Some t" "s1 = s"
    | data titles where "net (length (calls s)) (Search_request (strip query)) = Body data"
        "subscript data 1 = Inr titles" "truthy titles" "subscript titles 0 = Inr t"
        "cache s1 = store_title (cache s) (strip query) t"
    by blast
  then have "title_text t \<and> cache_texts s1"
  proof cases
    case 1
    with assms(2) show ?thesis by (simp add: cache_texts_def)
  next
    case 2
    with assms(2) show ?thesis by (auto simp: cache_texts_def)
  next
    case 3
    have "search_texts (net (length (calls s)) (Search_request (strip query)))"
      using assms(3) by (simp add: texts_only_def)
    with 3 have "title_text t"
      by (simp add: search_texts_def del: One_nat_def)
    with 3 assms(2) show ?thesis
      by (auto simp: cache_texts_def)
  qed
  then show "title_text t" and "cache_texts s1" by simp_all
qed

lemma summary_texts_kept:
  assumes "cache_texts s" and "texts_only net" and "encodable t"
  shows "\<exists>sm s2. wiki_get_summary net (JStr t) s = (Inr sm, s2) \<and> summary_text sm \<and> cache_texts s2"
proof -
  from assms(3) obtain safe where q: "quote [] t = Inr safe"
    using encodable_quote by blast
  have r: "summary_texts (net (length (calls s)) (Summary_request (WIKI_SUMMARY_URL safe)))"
    using assms(2) by (simp add: texts_only_def)
  show ?thesis
    using assms(1) q r
    by (auto simp: fetch_def cache_texts_def summary_texts_def
             split: if_splits option.splits prod.splits sum.splits response.splits)
qed

lemma format_texts:
  assumes "encodable t" and "summary_text sm"
  shows "\<exists>answer. format_answer (JStr t) sm = Inr answer"
  using encodable_link [OF assms(1)] assms(2)
  by (cases sm) auto

lemma answer_query_returns:
  assumes "cache_texts s" and "texts_only net"
  shows "\<exists>answer s'. answer_query U net user_input s = (Inr answer, s') \<and> cache_texts s'"
proof -
  obtain t s1 where search: "wiki_search_first_title net (strip user_input) s = (t, s1)"
    by (cases "wiki_search_first_title net (strip user_input) s")
  note t = search_texts_kept [OF search assms]
  have "\<exists>answer s'. lookup_answer net (strip user_input) s = (Inr answer, s') \<and> cache_texts s'"
  proof (cases "truthy t")
    case False
    with search t show ?thesis
      by (simp add: lookup_answer_def)
  next
    case True
    with t(1) obtain k where k: "t = JStr k" "encodable k"
      by (cases t) auto
    from summary_texts_kept [OF t(2) assms(2) k(2)] obtain sm s2
      where sm: "wiki_get_summary net (JStr k) s1 = (Inr sm, s2)" "summary_text sm" "cache_texts s2"
      by blast
    from format_texts [OF k(2) sm(2)] obtain answer where "format_answer (JStr k) sm = Inr answer"
      by blast
    with True search k sm show ?thesis
      by (simp add: lookup_answer_def)
  qed
  with assms(1) show ?thesis
    by (auto simp: answer_query_def Let_def split: option.splits)
qed

lemma initial_texts: "cache_texts initial"
  by (simp add: cache_texts_def initial_def)

text \<open>
  C1. The claim is that \<open>answer_query\<close> never raises, whatever the remote services
  answer. It does raise: when the search service answers \<open>["photosynthesis", [42]]\<close>,
  the number is taken as the title, stored and returned, and \<open>urllib.parse.quote\<close>,
  which \<open>wiki_get_summary\<close> calls before its \<open>try\<close>, raises \<open>TypeError\<close>, which
  leaves \<open>answer_query\<close>. (By \<open>answer_query_returns\<close> a title or an extract that is
  not text is the only way to get an exception.)
\<close>

theorem answer_query_raises:
  "answer_query U malformed photosynthesis initial =
     (Inl TypeError,
      \<lparr>cache = store_title Map.empty photosynthesis (JInt 42), calls = [Search_request photosynthesis]\<rparr>)"
  by (simp add: answer_query_def lookup_answer_def photosynthesis_stripped
        photosynthesis_no_small_talk wiki_search_first_title_def initial_def fetch_def malformed_def)

section \<open>Asking twice\<close>

text \<open>
  C3 as stated fails. A summary request that fails leaves nothing in the cache, so in the
  session below the second call sends it again (two summary requests in total), and as it
  succeeds then, the two answers differ.
\<close>

theorem repeated_query_counterexample:
  "fst (answer_query ascii_only recovering photosynthesis
          (snd (answer_query ascii_only recovering photosynthesis initial))) \<noteq>
   fst (answer_query ascii_only recovering photosynthesis initial) \<and>
   length (filter is_summary (calls (snd (answer_query ascii_only recovering photosynthesis
          (snd (answer_query ascii_only recovering photosynthesis initial)))))) = 2"
  by (simp add: recovering_first recovering_second after_summary_def is_summary_def
        no_summary_answer_def summary_answer_def ascii_def)

lemma calls_grow_by_one:
  assumes "calls s1 = calls s \<or> calls s1 = calls s @ [r]"
  shows "length (filter P (calls s1)) \<le> length (filter P (calls s)) + 1"
    and "\<not> P r \<Longrightarrow> filter P (calls s1) = filter P (calls s)"
  using assms by auto

text \<open>
  The case of a first call that obtains a title and a summary.
\<close>

lemma repeated_query_after_success:
  assumes "strip user_input \<noteq> []"
    and "check_small_talk U (strip user_input) = None"
    and "wiki_search_first_title net (strip user_input) s = (t, s1)"
    and "truthy t"
    and "wiki_get_summary net t s1 = (Inr sm, s2)"
    and "truthy sm"
  shows "answer_query U net user_input s = (format_answer t sm, s2) \<and>
         answer_query U net' user_input s2 = (format_answer t sm, s2) \<and>
         length (filter is_search (calls s2)) \<le> length (filter is_search (calls s)) + 1 \<and>
         length (filter is_summary (calls s2)) \<le> length (filter is_summary (calls s)) + 1"
proof (intro conjI)
  let ?q = "strip user_input"
  show first: "answer_query U net user_input s = (format_answer t sm, s2)"
    using assms by (simp add: answer_query_def lookup_answer_def)
  from search_effect(5) [OF assms(3,4)] have "cached_title (cache s1) ?q = Some t"
    by (simp add: strip_idem)
  then have "cached_title (cache s2) ?q = Some t"
    using summary_effect(2) [OF assms(5)] by simp
  then have search2: "wiki_search_first_title net' ?q s2 = (t, s2)"
    using assms(1) by (intro search_cached) (simp_all add: strip_idem)
  from summary_effect(5) [OF assms(5) refl assms(6)] obtain k
    where k: "k \<noteq> []" "t = JStr k" "cached_summary (cache s2) k = Some sm"
    by blast
  then have "wiki_get_summary net' t s2 = (Inr sm, s2)"
    by (simp add: summary_cached)
  with search2 assms(1,2,4)
  show "answer_query U net' user_input s2 = (format_answer t sm, s2)"
    by (simp add: answer_query_def lookup_answer_def)
  have a: "calls s1 = calls s \<or> calls s1 = calls s @ [Search_request (strip ?q)]"
    using assms(3) by (rule search_effect(1))
  from summary_effect(1) [OF assms(5)] obtain u
    where b: "calls s2 = calls s1 \<or> calls s2 = calls s1 @ [Summary_request u]"
    by blast
  have "filter is_search (calls s2) = filter is_search (calls s1)"
    using b by (rule calls_grow_by_one(2)) (simp add: is_search_def)
  then show "length (filter is_search (calls s2)) \<le> length (filter is_search (calls s)) + 1"
    using calls_grow_by_one(1) [OF a, of is_search] by simp
  have "filter is_summary (calls s1) = filter is_summary (calls s)"
    using a by (rule calls_grow_by_one(2)) (simp add: is_summary_def)
  then show "length (filter is_summary (calls s2)) \<le> length (filter is_summary (calls s)) + 1"
    using calls_grow_by_one(1) [OF b, of is_summary] by simp
qed

text \<open>
  C3 as amended. Take a query that is not small talk and a first call after which the cache
  holds a title for the query (found there or fetched; it may be \<open>None\<close> or empty) and,
  when that title is a true value, the title is a string for which the cache holds a
  summary. Then the first call has sent at most one search request and at most one summary
  request, and a second call with the same input, whatever the remote services would answer
  then, sends no request, leaves the state as it is and returns the same result as the
  first.
\<close>

theorem repeated_query_served_from_cache:
  assumes "strip user_input \<noteq> []"
    and "check_small_talk U (strip user_input) = None"
    and "answer_query U net user_input s = (r, s2)"
    and "cached_title (cache s2) (strip user_input) = Some t"
    and "truthy t \<longrightarrow> (\<exists>k sm. t = JStr k \<and> cached_summary (cache s2) k = Some sm)"
  shows "answer_query U net' user_input s2 = (r, s2) \<and>
         length (filter is_search (calls s2)) \<le> length (filter is_search (calls s)) + 1 \<and>
         length (filter is_summary (calls s2)) \<le> length (filter is_summary (calls s)) + 1"
proof -
  let ?q = "strip user_input"
  obtain t' s1 where search: "wiki_search_first_title net ?q s = (t', s1)"
    by (cases "wiki_search_first_title net ?q s")
  have a: "calls s1 = calls s \<or> calls s1 = calls s @ [Search_request (strip ?q)]"
    using search by (rule search_effect(1))
  have same_title: "t' = t" if "cached_title (cache s1) ?q = Some t"
  proof -
    from search_effect(4) [OF search that]
    consider "cached_title (cache s) ?q = Some t" | "t = t'"
      by blast
    then show ?thesis
    proof cases
      case 1
      then have "wiki_search_first_title net ?q s = (t, s)"
        using assms(1) by (intro search_cached) (simp_all add: strip_idem)
      with search show ?thesis by simp
    next
      case 2
      then show ?thesis by simp
    qed
  qed
  show ?thesis
  proof (cases "truthy t'")
    case False
    with assms(1-3) search have r: "r = Inr no_match_message" and s2: "s2 = s1"
      by (simp_all add: answer_query_def lookup_answer_def)
    with assms(4) same_title have t: "t' = t" by simp
    from assms(1,4) have "wiki_search_first_title net' ?q s2 = (t, s2)"
      by (intro search_cached) (simp_all add: strip_idem)
    with False t r assms(1,2) have "answer_query U net' user_input s2 = (r, s2)"
      by (simp add: answer_query_def lookup_answer_def)
    moreover have "length (filter is_search (calls s2)) \<le> length (filter is_search (calls s)) + 1"
      unfolding s2 using calls_grow_by_one(1) [OF a, of is_search] by simp
    moreover have "filter is_summary (calls s1) = filter is_summary (calls s)"
      using a by (rule calls_grow_by_one(2)) (simp add: is_summary_def)
    then have "length (filter is_summary (calls s2)) \<le> length (filter is_summary (calls s)) + 1"
      unfolding s2 by simp
    ultimately show ?thesis by blast
  next
    case True
    obtain x s2' where lookup: "wiki_get_summary net t' s1 = (x, s2')"
      by (cases "wiki_get_summary net t' s1")
    with True assms(1-3) search have s2: "s2' = s2"
      and r: "r = (case x of Inl e \<Rightarrow> Inl e | Inr sm \<Rightarrow> format_answer t' sm)"
      by (auto simp: answer_query_def lookup_answer_def split: sum.splits)
    from assms(4) have "cached_title (cache s1) ?q = Some t"
      using summary_effect(2) [OF lookup] s2 by simp
    with same_title have t: "t' = t" by simp
    with True assms(5) obtain k sm where k: "t = JStr k"
      and sm: "cached_summary (cache s2) k = Some sm"
      by blast
    from True t k have ne: "k \<noteq> []" by simp
    from summary_effect(4) [OF lookup] sm s2
    consider "cached_summary (cache s1) k = Some sm" | "x = Inr sm"
      by blast
    then have x: "x = Inr sm"
    proof cases
      case 1
      with ne have "wiki_get_summary net (JStr k) s1 = (Inr sm, s1)"
        by (rule summary_cached)
      with lookup t k show ?thesis by simp
    next
      case 2
      then show ?thesis .
    qed
    from assms(1,4) have "wiki_search_first_title net' ?q s2 = (t, s2)"
      by (intro search_cached) (simp_all add: strip_idem)
    moreover from ne sm have "wiki_get_summary net' (JStr k) s2 = (Inr sm, s2)"
      by (rule summary_cached)
    ultimately have "answer_query U net' user_input s2 = (r, s2)"
      using True t k r x assms(1,2)
      by (simp add: answer_query_def lookup_answer_def del: wiki_get_summary.simps format_answer.simps)
    moreover
    from summary_effect(1) [OF lookup] s2 obtain u
      where b: "calls s2 = calls s1 \<or> calls s2 = calls s1 @ [Summary_request u]"
      by blast
    have "filter is_search (calls s2) = filter is_search (calls s1)"
      using b by (rule calls_grow_by_one(2)) (simp add: is_search_def)
    then have "length (filter is_search (calls s2)) \<le> length (filter is_search (calls s)) + 1"
      using calls_grow_by_one(1) [OF a, of is_search] by simp
    moreover
    have "filter is_summary (calls s1) = filter is_summary (calls s)"
      using a by (rule calls_grow_by_one(2)) (simp add: is_summary_def)
    then have "length (filter is_summary (calls s2)) \<le> length (filter is_summary (calls s)) + 1"
      using calls_grow_by_one(1) [OF b, of is_summary] by simp
    ultimately show ?thesis by blast
  qed
qed

text \<open>
  Two sessions: one in which both lookups succeed, and one in which the search service
  names \<open>None\<close> as the first title, which is cached as it is.
\<close>

theorem repeated_query_served_from_cache_witness:
  "answer_query ascii_only healthy photosynthesis initial =
     (Inr (summary_answer Photosynthesis (ascii ''A. B.'') Photosynthesis_link_text), healthy_state) \<and>
   answer_query ascii_only offline photosynthesis healthy_state =
     (Inr (summary_answer Photosynthesis (ascii ''A. B.'') Photosynthesis_link_text), healthy_state) \<and>
   length (filter is_search (calls healthy_state)) \<le> length (filter is_search (calls initial)) + 1 \<and>
   length (filter is_summary (calls healthy_state)) \<le> length (filter is_summary (calls initial)) + 1 \<and>
   answer_query ascii_only nameless photosynthesis initial = (Inr no_match_message, after_null_title) \<and>
   cached_title (cache after_null_title) photosynthesis = Some JNull \<and>
   answer_query ascii_only healthy photosynthesis after_null_title =
     (Inr no_match_message, after_null_title)"
proof -
  have "truthy (JStr Photosynthesis) \<longrightarrow>
      (\<exists>k sm. JStr Photosynthesis = JStr k \<and> cached_summary (cache healthy_state) k = Some sm)"
    using healthy_state_cached(2) by simp
  with repeated_query_served_from_cache [of photosynthesis ascii_only healthy initial _
      healthy_state "JStr Photosynthesis" offline]
  have one: "answer_query ascii_only offline photosynthesis healthy_state =
     (Inr (summary_answer Photosynthesis (ascii ''A. B.'') Photosynthesis_link_text), healthy_state) \<and>
   length (filter is_search (calls healthy_state)) \<le> length (filter is_search (calls initial)) + 1 \<and>
   length (filter is_summary (calls healthy_state)) \<le> length (filter is_summary (calls initial)) + 1"
    using photosynthesis_stripped photosynthesis_no_small_talk [of ascii_only]
      healthy_first [of ascii_only] healthy_state_cached(1)
    by simp
  have null: "cached_title (cache after_null_title) photosynthesis = Some JNull"
    by (simp add: after_null_title_def)
  with repeated_query_served_from_cache [of photosynthesis ascii_only nameless initial _
      after_null_title JNull healthy]
  have two: "answer_query ascii_only healthy photosynthesis after_null_title =
     (Inr no_match_message, after_null_title)"
    using photosynthesis_stripped photosynthesis_no_small_talk [of ascii_only]
      nameless_first [of ascii_only]
    by simp
  from one two null show ?thesis
    using healthy_first [of ascii_only] nameless_first [of ascii_only] by simp
qed

section \<open>The cache only grows\<close>

lemma answer_effect:
  assumes "answer_query U net user_input s = (r, s')"
  shows "cached_title (cache s) k = Some v \<Longrightarrow> cached_title (cache s') k = Some v"
    and "cached_summary (cache s) k = Some v \<Longrightarrow> cached_summary (cache s') k = Some v"
    and "keys_nonempty s \<Longrightarrow> keys_nonempty s'"
proof -
  have "s' = s \<or> (\<exists>t s1. wiki_search_first_title net (strip user_input) s = (t, s1) \<and>
          (s' = s1 \<or> (\<exists>r'. wiki_get_summary net t s1 = (r', s'))))"
    using assms
    by (auto simp: answer_query_def lookup_answer_def Let_def
             split: if_splits option.splits prod.splits sum.splits)
  then consider "s' = s"
    | t where "wiki_search_first_title net (strip user_input) s = (t, s')"
    | t s1 r' where "wiki_search_first_title net (strip user_input) s = (t, s1)"
        and "wiki_get_summary net t s1 = (r', s')"
    by blast
  note cases = this
  show "cached_title (cache s) k = Some v \<Longrightarrow> cached_title (cache s') k = Some v"
    by (cases rule: cases) (auto dest: search_effect(3) simp: summary_effect(2))
  show "cached_summary (cache s) k = Some v \<Longrightarrow> cached_summary (cache s') k = Some v"
    by (cases rule: cases) (auto dest: summary_effect(3) simp: search_effect(2))
  show "keys_nonempty s \<Longrightarrow> keys_nonempty s'"
    unfolding keys_nonempty_def
    by (cases rule: cases)
       (fastforce dest: search_effect(4) summary_effect(4) simp: search_effect(2) summary_effect(2))+
qed

lemma call_effect:
  shows "cached_title (cache s) k = Some v \<Longrightarrow> cached_title (cache (run_call U net c s)) k = Some v"
    and "cached_summary (cache s) k = Some v \<Longrightarrow> cached_summary (cache (run_call U net c s)) k = Some v"
    and "keys_nonempty s \<Longrightarrow> keys_nonempty (run_call U net c s)"
proof -
  show "cached_title (cache s) k = Some v \<Longrightarrow> cached_title (cache (run_call U net c s)) k = Some v"
  proof (cases c)
    case (Search_title query)
    then show "cached_title (cache s) k = Some v \<Longrightarrow> ?thesis"
      using search_effect(3) [of net query s] by (cases "wiki_search_first_title net query s") simp
  next
    case (Get_summary t)
    then show "cached_title (cache s) k = Some v \<Longrightarrow> ?thesis"
      using summary_effect(2) [of net t s] by (cases "wiki_get_summary net t s") simp
  next
    case (Answer user_input)
    then show "cached_title (cache s) k = Some v \<Longrightarrow> ?thesis"
      using answer_effect(1) [of U net user_input s]
      by (cases "answer_query U net user_input s") simp
  qed
  show "cached_summary (cache s) k = Some v \<Longrightarrow> cached_summary (cache (run_call U net c s)) k = Some v"
  proof (cases c)
    case (Search_title query)
    then show "cached_summary (cache s) k = Some v \<Longrightarrow> ?thesis"
      using search_effect(2) [of net query s] by (cases "wiki_search_first_title net query s") simp
  next
    case (Get_summary t)
    then show "cached_summary (cache s) k = Some v \<Longrightarrow> ?thesis"
      using summary_effect(3) [of net t s] by (cases "wiki_get_summary net t s") simp
  next
    case (Answer user_input)
    then show "cached_summary (cache s) k = Some v \<Longrightarrow> ?thesis"
      using answer_effect(2) [of U net user_input s]
      by (cases "answer_query U net user_input s") simp
  qed
  show "keys_nonempty s \<Longrightarrow> keys_nonempty (run_call U net c s)"
  proof (cases c)
    case (Search_title query)
    obtain t s1 where r: "wiki_search_first_title net query s = (t, s1)"
      by (cases "wiki_search_first_title net query s")
    assume "keys_nonempty s"
    then have "keys_nonempty s1"
      unfolding keys_nonempty_def
      by (fastforce dest: search_effect(4) [OF r] simp: search_effect(2) [OF r])
    with Search_title r show ?thesis by simp
  next
    case (Get_summary t)
    obtain r' s1 where r: "wiki_get_summary net t s = (r', s1)"
      by (cases "wiki_get_summary net t s")
    assume "keys_nonempty s"
    then have "keys_nonempty s1"
      unfolding keys_nonempty_def
      by (fastforce dest: summary_effect(4) [OF r] simp: summary_effect(2) [OF r])
    with Get_summary r show ?thesis by simp
  next
    case (Answer user_input)
    then show "keys_nonempty s \<Longrightarrow> ?thesis"
      using answer_effect(3) [of U net user_input s]
      by (cases "answer_query U net user_input s") simp
  qed
qed

lemma calls_effect:
  shows "cached_title (cache s) k = Some v \<Longrightarrow> cached_title (cache (run_calls U net cs s)) k = Some v"
    and "cached_summary (cache s) k = Some v \<Longrightarrow> cached_summary (cache (run_calls U net cs s)) k = Some v"
    and "keys_nonempty s \<Longrightarrow> keys_nonempty (run_calls U net cs s)"
  unfolding run_calls_def
  by (induction cs arbitrary: s) (simp_all add: call_effect)

lemma keys_nonempty_initial: "keys_nonempty initial"
  by (simp add: keys_nonempty_def initial_def)

text \<open>
  C2. Take any session of calls of \<open>wiki_search_first_title\<close>, \<open>wiki_get_summary\<close> and
  \<open>answer_query\<close> from a fresh process, and any further calls after it. A title cached
  under a key at the end of the first part is still cached under that key, unchanged, after
  the further calls, and a title lookup for a query whose normalised form is the key then
  returns that value and leaves the state as it is (no request is sent). The same holds for
  a summary cached under a title.
\<close>

theorem cache_memoization:
  assumes "s = run_calls U net before initial"
    and "s' = run_calls U' net' later s"
  shows "(cached_title (cache s) k = Some v \<longrightarrow>
            cached_title (cache s') k = Some v \<and>
            (\<forall>query. strip query = k \<longrightarrow> wiki_search_first_title net'' query s' = (v, s'))) \<and>
         (cached_summary (cache s) k = Some v \<longrightarrow>
            cached_summary (cache s') k = Some v \<and>
            wiki_get_summary net'' (JStr k) s' = (Inr v, s'))"
proof -
  have "keys_nonempty s"
    unfolding assms(1) using keys_nonempty_initial by (rule calls_effect(3))
  then have inv: "keys_nonempty s'"
    unfolding assms(2) by (rule calls_effect(3))
  show ?thesis
  proof (intro conjI impI allI)
    assume "cached_title (cache s) k = Some v"
    then show t: "cached_title (cache s') k = Some v"
      unfolding assms(2) by (rule calls_effect(1))
    fix query
    assume "strip query = k"
    moreover from t inv have "k \<noteq> []"
      by (auto simp: keys_nonempty_def)
    ultimately show "wiki_search_first_title net'' query s' = (v, s')"
      using t by (intro search_cached) simp_all
  next
    assume "cached_summary (cache s) k = Some v"
    then show t: "cached_summary (cache s') k = Some v"
      unfolding assms(2) by (rule calls_effect(2))
    from t inv have "k \<noteq> []"
      by (auto simp: keys_nonempty_def)
    then show "wiki_get_summary net'' (JStr k) s' = (Inr v, s')"
      using t by (rule summary_cached)
  qed
qed

theorem cache_memoization_witness:
  "cached_title (cache (run_calls ascii_only healthy [Answer photosynthesis] initial)) photosynthesis =
     Some (JStr Photosynthesis) \<and>
   cached_summary (cache (run_calls ascii_only healthy [Answer photosynthesis] initial)) Photosynthesis =
     Some (JStr (ascii ''A. B. C.'')) \<and>
   wiki_search_first_title offline photosynthesis
     (run_calls ascii_only recovering [Answer (ascii ''chlorophyll''), Search_title photosynthesis]
        (run_calls ascii_only healthy [Answer photosynthesis] initial)) =
     (JStr Photosynthesis,
      run_calls ascii_only recovering [Answer (ascii ''chlorophyll''), Search_title photosynthesis]
        (run_calls ascii_only healthy [Answer photosynthesis] initial)) \<and>
   wiki_get_summary offline (JStr Photosynthesis)
     (run_calls ascii_only recovering [Answer (ascii ''chlorophyll''), Search_title photosynthesis]
        (run_calls ascii_only healthy [Answer photosynthesis] initial)) =
     (Inr (JStr (ascii ''A. B. C.'')),
      run_calls ascii_only recovering [Answer (ascii ''chlorophyll''), Search_title photosynthesis]
        (run_calls ascii_only healthy [Answer photosynthesis] initial))"
proof -
  let ?s = "run_calls ascii_only healthy [Answer photosynthesis] initial"
  let ?s' = "run_calls ascii_only recovering [Answer (ascii ''chlorophyll''), Search_title photosynthesis] ?s"
  have s: "?s = healthy_state"
    by (simp add: run_calls_def healthy_first)
  have t: "cached_title (cache ?s) photosynthesis = Some (JStr Photosynthesis)"
    and sm: "cached_summary (cache ?s) Photosynthesis = Some (JStr (ascii ''A. B. C.''))"
    by (simp_all only: s healthy_state_cached)
  from cache_memoization [OF refl refl, of ascii_only healthy "[Answer photosynthesis]"
      photosynthesis "JStr Photosynthesis" ascii_only recovering
      "[Answer (ascii ''chlorophyll''), Search_title photosynthesis]" offline] t
  have "wiki_search_first_title offline photosynthesis ?s' = (JStr Photosynthesis, ?s')"
    using photosynthesis_stripped(1) by blast
  moreover
  from cache_memoization [OF refl refl, of ascii_only healthy "[Answer photosynthesis]"
      Photosynthesis "JStr (ascii ''A. B. C.'')" ascii_only recovering
      "[Answer (ascii ''chlorophyll''), Search_title photosynthesis]" offline] sm
  have "wiki_get_summary offline (JStr Photosynthesis) ?s' = (Inr (JStr (ascii ''A. B. C.'')), ?s')"
    by blast
  ultimately show ?thesis
    using t sm by blast
qed

section \<open>The first two sentences\<close>

lemma has_break_junction:
  "ends_sentence cur \<Longrightarrow> isspace c \<Longrightarrow> has_break (cur @ c # cs)"
  by (induction cur rule: has_break.induct) (simp_all add: ends_sentence_def)

lemma split_no_break:
  "\<not> has_break (cur @ a) \<Longrightarrow> split_sentences cur (a @ r) = split_sentences (cur @ a) r"
proof (induction a arbitrary: cur)
  case Nil
  show ?case by simp
next
  case (Cons c cs)
  from Cons.prems have "\<not> (isspace c \<and> ends_sentence cur)"
    using has_break_junction by blast
  moreover from Cons.prems have "\<not> has_break ((cur @ [c]) @ cs)"
    by simp
  ultimately show ?case
    using Cons.IH [of "cur @ [c]"] by auto
qed

lemma split_at_break:
  assumes "ends_sentence cur" and "spaces w" and "r = [] \<or> \<not> isspace (hd r)"
  shows "split_sentences cur (w @ r) = cur # split_sentences [] r"
proof -
  from assms(2) obtain c cs where w: "w = c # cs" and c: "isspace c" and cs: "\<forall>x\<in>set cs. isspace x"
    by (cases w) (auto simp: spaces_def list_all_iff)
  from cs assms(3) have "dropWhile isspace (cs @ r) = r"
    by (cases r) (simp_all add: dropWhile_append)
  with w c assms(1) show ?thesis by simp
qed

lemma ends_sentence_no_space: "ends_sentence a \<Longrightarrow> \<not> isspace (last a)"
  by (auto simp: ends_sentence_def isspace_def)

lemma split_two_sentences:
  assumes "sentence a" and "spaces w1" and "sentence b" and "spaces w2"
    and "r = [] \<or> \<not> isspace (hd r)"
  shows "split_sentences [] (a @ w1 @ b @ w2 @ r) = a # b # split_sentences [] r"
proof -
  from assms(1) have "split_sentences [] (a @ w1 @ b @ w2 @ r) = split_sentences a (w1 @ b @ w2 @ r)"
    using split_no_break [of "[]" a] by (simp add: sentence_def)
  also from assms(1,2,3) have "\<dots> = a # split_sentences [] (b @ w2 @ r)"
    by (intro split_at_break) (simp_all add: sentence_def)
  also from assms(3) have "split_sentences [] (b @ w2 @ r) = split_sentences b (w2 @ r)"
    using split_no_break [of "[]" b] by (simp add: sentence_def)
  also from assms(3,4,5) have "\<dots> = b # split_sentences [] r"
    by (intro split_at_break) (simp_all add: sentence_def)
  finally show ?thesis .
qed

lemma short_one_sentence:
  assumes "\<not> has_break (strip text)"
  shows "short_sentences text 2 = strip text"
proof -
  have "split_sentences [] (strip text) = [strip text]"
    using split_no_break [of "[]" "strip text" "[]"] assms by simp
  then show ?thesis
    by (simp add: short_sentences_def strip_idem)
qed

lemma short_two_sentences:
  assumes "sentence a" and "spaces w1" and "b \<noteq> []" and "\<not> isspace (hd b)" and "\<not> has_break b"
    and "strip text = a @ w1 @ b"
  shows "short_sentences text 2 = a @ [0x20] @ b"
proof -
  from assms(1) have "split_sentences [] (a @ w1 @ b) = split_sentences a (w1 @ b)"
    using split_no_break [of "[]" a] by (simp add: sentence_def)
  also from assms(1,2,4) have "\<dots> = a # split_sentences [] b"
    by (intro split_at_break) (simp_all add: sentence_def)
  also from assms(5) have "split_sentences [] b = [b]"
    using split_no_break [of "[]" b "[]"] by simp
  finally have parts: "split_sentences [] (strip text) = [a, b]"
    using assms(6) by simp
  from assms(3,6) have "strip text \<noteq> []" and "last (strip text) = last b"
    by simp_all
  then have "\<not> isspace (last b)"
    using strip_no_space_ends(2) [of "text"] by simp
  with assms(1,3) have "strip (a @ [0x20] @ b) = a @ [0x20] @ b"
    by (intro strip_fixed) (simp add: sentence_def)
  with parts show ?thesis
    by (simp add: short_sentences_def)
qed

lemma short_first_two_sentences:
  assumes "sentence a" and "spaces w1" and "sentence b" and "spaces w2"
    and "r = [] \<or> \<not> isspace (hd r)"
    and "strip text = a @ w1 @ b @ w2 @ r"
  shows "short_sentences text 2 = a @ [0x20] @ b"
proof -
  have "take 2 (split_sentences [] (strip text)) = [a, b]"
    using split_two_sentences [OF assms(1-5)] assms(6) by simp
  moreover have "strip (a @ [0x20] @ b) = a @ [0x20] @ b"
    using assms(1,3) ends_sentence_no_space [of b]
    by (intro strip_fixed) (simp add: sentence_def)
  ultimately show ?thesis
    by (auto simp: short_sentences_def Let_def)
qed

lemma summary_answer_shape:
  assumes "strip user_input \<noteq> []"
    and "check_small_talk U (strip user_input) = None"
    and "wiki_search_first_title net (strip user_input) s = (t, s1)"
    and "truthy t"
    and "wiki_get_summary net t s1 = (Inr (JStr text), s2)"
    and "text \<noteq> []"
    and "answer_query U net user_input s = (Inr answer, s3)"
  shows "\<exists>ttl link. t = JStr ttl \<and> wiki_link ttl = Inr link \<and>
           answer = ascii ''**'' @ ttl @ ascii ''**'' @ [0x0A] @ short_sentences text 2 @
                    [0x0A, 0x0A] @ ascii ''Agar aur padhna ho: '' @ link"
proof -
  from assms have "format_answer t (JStr text) = Inr answer"
    by (simp add: answer_query_def lookup_answer_def)
  with assms(6) show ?thesis
    by (cases t) (auto simp: summary_answer_def split: sum.splits)
qed

text \<open>
  C7. When a title was resolved, the summary obtained is a non-empty string and
  \<open>answer_query\<close> returns an answer, the answer is the title between \<open>**\<close>, a line
  break, the summary cut by \<open>short_sentences\<close> to two sentences, an empty line and the
  line with the link. The cut works on the stripped summary: a summary with no break is
  kept whole; of two sentences, and of two sentences followed by more text, exactly the two
  sentences are kept, joined by one space, whatever run of whitespace separated them. For
  \<open>A. B. C.\<close> the result is \<open>A. B.\<close>; the session after the theorem shows the whole
  answer for that summary, in which \<open>C.\<close> occurs nowhere.
\<close>

theorem sentence_truncation:
  assumes "strip user_input \<noteq> []"
    and "check_small_talk U (strip user_input) = None"
    and "wiki_search_first_title net (strip user_input) s = (t, s1)"
    and "truthy t"
    and "wiki_get_summary net t s1 = (Inr (JStr text), s2)"
    and "text \<noteq> []"
    and "answer_query U net user_input s = (Inr answer, s3)"
  shows "(\<exists>ttl link. t = JStr ttl \<and> wiki_link ttl = Inr link \<and>
            answer = ascii ''**'' @ ttl @ ascii ''**'' @ [0x0A] @ short_sentences text 2 @
                     [0x0A, 0x0A] @ ascii ''Agar aur padhna ho: '' @ link) \<and>
         (\<not> has_break (strip text) \<longrightarrow> short_sentences text 2 = strip text) \<and>
         (\<forall>a w1 b. sentence a \<and> spaces w1 \<and> b \<noteq> [] \<and> \<not> isspace (hd b) \<and> \<not> has_break b \<and>
              strip text = a @ w1 @ b \<longrightarrow>
            short_sentences text 2 = a @ [0x20] @ b) \<and>
         (\<forall>a w1 b w2 r. sentence a \<and> spaces w1 \<and> sentence b \<and> spaces w2 \<and> r \<noteq> [] \<and>
              \<not> isspace (hd r) \<and> strip text = a @ w1 @ b @ w2 @ r \<longrightarrow>
            short_sentences text 2 = a @ [0x20] @ b) \<and>
         short_sentences (ascii ''A. B. C.'') 2 = ascii ''A. B.''"
  using summary_answer_shape [OF assms] short_one_sentence [of "text"]
    short_two_sentences [of _ _ _ "text"] short_first_two_sentences [of _ _ _ _ _ "text"]
    three_sentences
  by (intro conjI allI impI) blast+

theorem sentence_truncation_witness:
  "answer_query ascii_only healthy photosynthesis initial =
     (Inr (ascii ''**'' @ Photosynthesis @ ascii ''**'' @ [0x0A] @ ascii ''A. B.'' @
           [0x0A, 0x0A] @ ascii ''Agar aur padhna ho: '' @
           ascii ''https://en.wikipedia.org/wiki/Photosynthesis''), healthy_state) \<and>
   sentence (ascii ''A.'') \<and> spaces (ascii '' '') \<and> sentence (ascii ''B.'') \<and>
   strip (ascii ''A. B. C.'') = ascii ''A.'' @ ascii '' '' @ ascii ''B.'' @ ascii '' '' @ ascii ''C.'' \<and>
   short_sentences (ascii ''A. B. C.'') 2 = ascii ''A.'' @ [0x20] @ ascii ''B.'' \<and>
   \<not> sublist (ascii ''C.'')
       (ascii ''**'' @ Photosynthesis @ ascii ''**'' @ [0x0A] @ ascii ''A. B.'' @
        [0x0A, 0x0A] @ ascii ''Agar aur padhna ho: '' @
        ascii ''https://en.wikipedia.org/wiki/Photosynthesis'')"
proof -
  have hyps: "strip photosynthesis \<noteq> []"
    "check_small_talk ascii_only (strip photosynthesis) = None"
    "wiki_search_first_title healthy (strip photosynthesis) initial = (JStr Photosynthesis, after_search)"
    "truthy (JStr Photosynthesis)"
    "wiki_get_summary healthy (JStr Photosynthesis) after_search =
       (Inr (JStr (ascii ''A. B. C.'')), healthy_state)"
    "ascii ''A. B. C.'' \<noteq> []"
    "answer_query ascii_only healthy photosynthesis initial =
       (Inr (summary_answer Photosynthesis (ascii ''A. B.'') Photosynthesis_link_text), healthy_state)"
    by (simp_all only: photosynthesis_stripped photosynthesis_no_small_talk healthy_search
          healthy_summary truthy.simps Photosynthesis_nonempty three_sentences_nonempty
          not_False_eq_True healthy_first)
  note inst = sentence_truncation [OF hyps]
  have parts: "sentence (ascii ''A.'')" "spaces (ascii '' '')" "sentence (ascii ''B.'')"
    "ascii ''C.'' \<noteq> []" "\<not> isspace (hd (ascii ''C.''))"
    "strip (ascii ''A. B. C.'') = ascii ''A.'' @ ascii '' '' @ ascii ''B.'' @ ascii '' '' @ ascii ''C.''"
    by (simp_all add: sentence_def spaces_def ends_sentence_def ascii_def isspace_def strip_def)
  from inst parts have short: "short_sentences (ascii ''A. B. C.'') 2 = ascii ''A.'' @ [0x20] @ ascii ''B.''"
    by blast
  have answer: "summary_answer Photosynthesis (ascii ''A. B.'') Photosynthesis_link_text =
      ascii ''**'' @ Photosynthesis @ ascii ''**'' @ [0x0A] @ ascii ''A. B.'' @
           [0x0A, 0x0A] @ ascii ''Agar aur padhna ho: '' @
           ascii ''https://en.wikipedia.org/wiki/Photosynthesis''"
    by (simp add: summary_answer_def Photosynthesis_link_text_def Photosynthesis_def ascii_def)
  have "\<not> sublist (ascii ''C.'')
       (ascii ''**'' @ Photosynthesis @ ascii ''**'' @ [0x0A] @ ascii ''A. B.'' @
        [0x0A, 0x0A] @ ascii ''Agar aur padhna ho: '' @
        ascii ''https://en.wikipedia.org/wiki/Photosynthesis'')"
    by (simp add: Photosynthesis_def ascii_def sublist_Cons_right prefix_Cons)
  with hyps(7) answer parts short show ?thesis
    by simp
qed

section \<open>What the patterns match\<close>

lemma prev_after_append [simp]: "prev_after p (xs @ ys) = prev_after (prev_after p xs) ys"
  by (induction xs arbitrary: p) simp_all

lemma prev_after_last: "xs \<noteq> [] \<Longrightarrow> prev_after p xs = Some (last xs)"
  by (induction xs arbitrary: p) auto

lemma lit_match_iff:
  "lit_match w (p, rest) = Some cur \<longleftrightarrow>
     (\<exists>m post. rest = m @ post \<and> list_all2 ci_match w m \<and> cur = (prev_after p m, post))"
proof (induction w arbitrary: p rest)
  case Nil
  show ?case by auto
next
  case (Cons x xs)
  show ?case
  proof (cases rest)
    case Nil
    then show ?thesis by simp
  next
    case (Cons c cs)
    show ?thesis
    proof
      assume "lit_match (x # xs) (p, rest) = Some cur"
      with Cons have c: "ci_match x c" and "lit_match xs (Some c, cs) = Some cur"
        by (auto split: if_splits)
      then obtain m post where "cs = m @ post" "list_all2 ci_match xs m" "cur = (prev_after (Some c) m, post)"
        using Cons.IH by blast
      with c Cons have "rest = (c # m) @ post \<and> list_all2 ci_match (x # xs) (c # m) \<and>
          cur = (prev_after p (c # m), post)"
        by simp
      then show "\<exists>m post. rest = m @ post \<and> list_all2 ci_match (x # xs) m \<and> cur = (prev_after p m, post)"
        by blast
    next
      assume "\<exists>m post. rest = m @ post \<and> list_all2 ci_match (x # xs) m \<and> cur = (prev_after p m, post)"
      then obtain m post where m: "rest = m @ post" "list_all2 ci_match (x # xs) m"
        "cur = (prev_after p m, post)"
        by blast
      from m(2) obtain d ds where d: "m = d # ds" "ci_match x d" "list_all2 ci_match xs ds"
        by (auto simp: list_all2_Cons1)
      with m Cons have "c = d" "cs = ds @ post" "cur = (prev_after (Some c) ds, post)"
        by simp_all
      with d have "lit_match xs (Some c, cs) = Some cur"
        using Cons.IH by blast
      with Cons d \<open>c = d\<close> show "lit_match (x # xs) (p, rest) = Some cur"
        by simp
    qed
  qed
qed

lemma search_from_iff:
  "search_from U r (p, rest) \<longleftrightarrow>
     (\<exists>pre post. rest = pre @ post \<and> matches U r (prev_after p pre, post) \<noteq> [])"
proof (induction rest arbitrary: p)
  case Nil
  show ?case by simp
next
  case (Cons c cs)
  show ?case
  proof
    assume "search_from U r (p, c # cs)"
    then consider "matches U r (p, c # cs) \<noteq> []" | "search_from U r (Some c, cs)"
      by auto
    then show "\<exists>pre post. c # cs = pre @ post \<and> matches U r (prev_after p pre, post) \<noteq> []"
    proof cases
      case 1
      then have "c # cs = [] @ (c # cs) \<and> matches U r (prev_after p [], c # cs) \<noteq> []"
        by simp
      then show ?thesis by blast
    next
      case 2
      then obtain pre post where "cs = pre @ post" "matches U r (prev_after (Some c) pre, post) \<noteq> []"
        using Cons.IH by blast
      then have "c # cs = (c # pre) @ post \<and> matches U r (prev_after p (c # pre), post) \<noteq> []"
        by simp
      then show ?thesis by blast
    qed
  next
    assume "\<exists>pre post. c # cs = pre @ post \<and> matches U r (prev_after p pre, post) \<noteq> []"
    then obtain pre post where pp: "c # cs = pre @ post" "matches U r (prev_after p pre, post) \<noteq> []"
      by blast
    show "search_from U r (p, c # cs)"
    proof (cases pre)
      case Nil
      with pp show ?thesis by auto
    next
      case (Cons d ds)
      with pp have "cs = ds @ post" "matches U r (prev_after (Some c) ds, post) \<noteq> []"
        by simp_all
      then have "search_from U r (Some c, cs)"
        using Cons.IH by blast
      then show ?thesis by simp
    qed
  qed
qed

lemma set_matches_word_group:
  "set (matches U (word_group ws) cur) =
     {cur'. boundary U cur \<and> (\<exists>w\<in>set ws. lit_match (ascii w) cur = Some cur') \<and> boundary U cur'}"
  by (auto simp: word_group_def simp del: boundary.simps split: option.splits if_splits) metis+

lemma matches_word_group:
  "matches U (word_group ws) cur \<noteq> [] \<longleftrightarrow>
     boundary U cur \<and> (\<exists>w\<in>set ws. \<exists>cur'. lit_match (ascii w) cur = Some cur' \<and> boundary U cur')"
proof -
  have "matches U (word_group ws) cur \<noteq> [] \<longleftrightarrow> set (matches U (word_group ws) cur) \<noteq> {}"
    by simp
  then show ?thesis
    unfolding set_matches_word_group by blast
qed

lemma search_word_group:
  "search U (word_group ws) s \<longleftrightarrow> (\<exists>w\<in>set ws. occurs U True (ascii w) True s)"
proof
  assume "search U (word_group ws) s"
  then obtain pre post w cur' where s: "s = pre @ post" and w: "w \<in> set ws"
    and b: "boundary U (prev_after None pre, post)"
    and l: "lit_match (ascii w) (prev_after None pre, post) = Some cur'"
    and b': "boundary U cur'"
    unfolding search_def search_from_iff matches_word_group by blast
  from l obtain m post' where "post = m @ post'" "list_all2 ci_match (ascii w) m"
    "cur' = (prev_after (prev_after None pre) m, post')"
    unfolding lit_match_iff by blast
  with s b b' have "occurs U True (ascii w) True s"
    unfolding occurs_def by (intro exI [of _ pre] exI [of _ m] exI [of _ post']) simp
  with w show "\<exists>w\<in>set ws. occurs U True (ascii w) True s" ..
next
  assume "\<exists>w\<in>set ws. occurs U True (ascii w) True s"
  then obtain w pre m post where w: "w \<in> set ws" and s: "s = pre @ m @ post"
    and m: "list_all2 ci_match (ascii w) m"
    and b: "boundary U (prev_after None pre, m @ post)"
    and b': "boundary U (prev_after None (pre @ m), post)"
    unfolding occurs_def by blast
  from m have "lit_match (ascii w) (prev_after None pre, m @ post) =
      Some (prev_after (prev_after None pre) m, post)"
    unfolding lit_match_iff by blast
  with w b b' have "matches U (word_group ws) (prev_after None pre, m @ post) \<noteq> []"
    unfolding matches_word_group by (auto simp del: boundary.simps)
  with s show "search U (word_group ws) s"
    unfolding search_def search_from_iff by blast
qed

declare boundary.simps [simp del]

lemma space_not_word: "isspace c \<Longrightarrow> \<not> is_word U c"
  by (auto simp: is_word_def isspace_def ascii_alnum_def)

lemma letter_match_no_space: "ascii_letter p \<Longrightarrow> ci_match p c \<Longrightarrow> \<not> isspace c"
  by (auto simp: ci_match_def ascii_letter_def ascii_lower_def isspace_def split: if_splits)

lemma match_ends:
  assumes "list_all2 ci_match w m" and "lettered w"
  shows "m \<noteq> []" and "\<not> isspace (hd m)" and "\<not> isspace (last m)"
proof -
  from assms have w: "w \<noteq> []" and len: "length m = length w"
    by (auto simp: lettered_def dest: list_all2_lengthD)
  then show m: "m \<noteq> []" by auto
  from assms(1) w m have "ci_match (hd w) (hd m)"
    by (cases w; cases m) auto
  with assms(2) show "\<not> isspace (hd m)"
    by (auto simp: lettered_def dest: letter_match_no_space)
  from assms(1) w len have "ci_match (w ! (length w - 1)) (m ! (length w - 1))"
    by (auto simp: list_all2_conv_all_nth)
  with w m len have "ci_match (last w) (last m)"
    by (simp add: last_conv_nth)
  with assms(2) show "\<not> isspace (last m)"
    by (auto simp: lettered_def dest: letter_match_no_space)
qed

lemma boundary_after_space:
  "isspace c \<Longrightarrow> boundary U (prev_after (Some c) xs, ys) = boundary U (prev_after None xs, ys)"
  by (cases xs) (simp_all add: space_not_word prev_after_last boundary.simps)

lemma boundary_before_space:
  "isspace c \<Longrightarrow> boundary U (p, xs @ [c]) = boundary U (p, xs)"
  by (cases xs) (simp_all add: space_not_word boundary.simps)

lemma boundary_same_head:
  "m \<noteq> [] \<Longrightarrow> boundary U (p, m @ xs) = boundary U (p, m @ ys)"
  by (cases m) (simp_all add: boundary.simps)

lemma occurs_Cons_space:
  assumes "isspace c" and "lettered w"
  shows "occurs U lb w rb (c # s) \<longleftrightarrow> occurs U lb w rb s"
proof
  assume "occurs U lb w rb (c # s)"
  then obtain pre m post where s: "c # s = pre @ m @ post" and m: "list_all2 ci_match w m"
    and l: "lb \<longrightarrow> boundary U (prev_after None pre, m @ post)"
    and r: "rb \<longrightarrow> boundary U (prev_after None (pre @ m), post)"
    unfolding occurs_def by blast
  from match_ends [OF m assms(2)] have "m \<noteq> []" and "\<not> isspace (hd m)" by simp_all
  with s assms(1) obtain pre' where pre: "pre = c # pre'"
    by (cases pre; cases m) auto
  with s have "s = pre' @ m @ post" by simp
  moreover from l pre have "lb \<longrightarrow> boundary U (prev_after None pre', m @ post)"
    using boundary_after_space [OF assms(1), of U pre'] by simp
  moreover from r pre have "rb \<longrightarrow> boundary U (prev_after None (pre' @ m), post)"
    using boundary_after_space [OF assms(1), of U "pre' @ m"] by simp
  ultimately show "occurs U lb w rb s"
    using m unfolding occurs_def by blast
next
  assume "occurs U lb w rb s"
  then obtain pre m post where s: "s = pre @ m @ post" and m: "list_all2 ci_match w m"
    and l: "lb \<longrightarrow> boundary U (prev_after None pre, m @ post)"
    and r: "rb \<longrightarrow> boundary U (prev_after None (pre @ m), post)"
    unfolding occurs_def by blast
  from s have "c # s = (c # pre) @ m @ post" by simp
  moreover from l have "lb \<longrightarrow> boundary U (prev_after None (c # pre), m @ post)"
    using boundary_after_space [OF assms(1), of U pre] by simp
  moreover from r have "rb \<longrightarrow> boundary U (prev_after None ((c # pre) @ m), post)"
    using boundary_after_space [OF assms(1), of U "pre @ m"] by simp
  ultimately show "occurs U lb w rb (c # s)"
    using m unfolding occurs_def by blast
qed

lemma occurs_snoc_space:
  assumes "isspace c" and "lettered w"
  shows "occurs U lb w rb (s @ [c]) \<longleftrightarrow> occurs U lb w rb s"
proof
  assume "occurs U lb w rb (s @ [c])"
  then obtain pre m post where s: "s @ [c] = pre @ m @ post" and m: "list_all2 ci_match w m"
    and l: "lb \<longrightarrow> boundary U (prev_after None pre, m @ post)"
    and r: "rb \<longrightarrow> boundary U (prev_after None (pre @ m), post)"
    unfolding occurs_def by blast
  from match_ends [OF m assms(2)] have ne: "m \<noteq> []" and "\<not> isspace (last m)" by simp_all
  with s assms(1) have "post \<noteq> []"
    by (metis append_Nil2 last_appendR last_snoc)
  then obtain post' x where post: "post = post' @ [x]"
    by (metis rev_exhaust)
  with s have x: "x = c" and s': "s = pre @ m @ post'"
    by (metis append_assoc last_snoc, metis append_assoc butlast_snoc)
  from l ne have "lb \<longrightarrow> boundary U (prev_after None pre, m @ post')"
    using boundary_same_head [of m U _ post post'] by simp
  moreover from r post x have "rb \<longrightarrow> boundary U (prev_after None (pre @ m), post')"
    using boundary_before_space [OF assms(1)] by simp
  ultimately show "occurs U lb w rb s"
    using s' m unfolding occurs_def by blast
next
  assume "occurs U lb w rb s"
  then obtain pre m post where s: "s = pre @ m @ post" and m: "list_all2 ci_match w m"
    and l: "lb \<longrightarrow> boundary U (prev_after None pre, m @ post)"
    and r: "rb \<longrightarrow> boundary U (prev_after None (pre @ m), post)"
    unfolding occurs_def by blast
  from match_ends [OF m assms(2)] have ne: "m \<noteq> []" by simp
  from s have "s @ [c] = pre @ m @ (post @ [c])" by simp
  moreover from l ne have "lb \<longrightarrow> boundary U (prev_after None pre, m @ (post @ [c]))"
    using boundary_same_head [of m U _ post "post @ [c]"] by simp
  moreover from r have "rb \<longrightarrow> boundary U (prev_after None (pre @ m), post @ [c])"
    using boundary_before_space [OF assms(1)] by simp
  ultimately show "occurs U lb w rb (s @ [c])"
    using m unfolding occurs_def by blast
qed

lemma occurs_dropWhile:
  assumes "lettered w"
  shows "occurs U lb w rb (dropWhile isspace s) \<longleftrightarrow> occurs U lb w rb s"
proof (induction s)
  case Nil
  show ?case by simp
next
  case (Cons c s)
  show ?case
  proof (cases "isspace c")
    case True
    then show ?thesis
      using Cons occurs_Cons_space [OF True assms, of U lb rb s] by simp
  next
    case False
    then show ?thesis by simp
  qed
qed

lemma occurs_drop_trailing:
  assumes "lettered w"
  shows "occurs U lb w rb (rev (dropWhile isspace (rev s))) \<longleftrightarrow> occurs U lb w rb s"
proof (induction s rule: rev_induct)
  case Nil
  show ?case by simp
next
  case (snoc c s)
  show ?case
  proof (cases "isspace c")
    case True
    then show ?thesis
      using snoc occurs_snoc_space [OF True assms, of U lb rb s] by simp
  next
    case False
    then show ?thesis by simp
  qed
qed

lemma occurs_strip:
  assumes "lettered w"
  shows "occurs U lb w rb (strip s) \<longleftrightarrow> occurs U lb w rb s"
  unfolding strip_def
  using occurs_drop_trailing [OF assms, of U lb rb "dropWhile isspace s"]
    occurs_dropWhile [OF assms, of U lb rb s]
  by blast

lemma occurs_nonempty:
  assumes "lettered w" and "occurs U lb w rb s"
  shows "s \<noteq> []"
proof -
  from assms(2) obtain pre m post where "s = pre @ m @ post" "list_all2 ci_match w m"
    unfolding occurs_def by blast
  with match_ends(1) [OF _ assms(1)] show ?thesis by auto
qed

lemma same_letter_match: "ascii_lower c = ascii_lower p \<Longrightarrow> ci_match p c"
  by (auto simp: ci_match_def ascii_letter_def ascii_lower_def split: if_splits)

lemma same_letters_match: "map ascii_lower m = map ascii_lower w \<Longrightarrow> list_all2 ci_match w m"
proof (induction w arbitrary: m)
  case Nil
  then show ?case by simp
next
  case (Cons p ps)
  then obtain c cs where "m = c # cs" "ascii_lower c = ascii_lower p" "map ascii_lower cs = map ascii_lower ps"
    by (cases m) auto
  with Cons.IH show ?case
    by (simp add: same_letter_match)
qed

lemma same_letter_word: "ascii_letter p \<Longrightarrow> ascii_lower c = ascii_lower p \<Longrightarrow> is_word U c"
  by (auto simp: is_word_def ascii_alnum_def ascii_letter_def ascii_lower_def split: if_splits)

lemma same_letters_ends:
  assumes "map ascii_lower m = map ascii_lower w" and "lettered w"
  shows "m \<noteq> []" and "is_word U (hd m)" and "is_word U (last m)"
proof -
  from assms have w: "w \<noteq> []" and len: "length m = length w"
    by (auto simp: lettered_def dest: map_eq_imp_length_eq)
  then show m: "m \<noteq> []" by auto
  from assms(1) w m have "ascii_lower (hd m) = ascii_lower (hd w)"
    by (cases w; cases m) auto
  with assms(2) show "is_word U (hd m)"
    by (auto simp: lettered_def intro: same_letter_word)
  from assms(1) have "map ascii_lower m ! (length w - 1) = map ascii_lower w ! (length w - 1)"
    by simp
  with w m len have "ascii_lower (last m) = ascii_lower (last w)"
    by (simp add: last_conv_nth)
  with assms(2) show "is_word U (last m)"
    by (auto simp: lettered_def intro: same_letter_word)
qed

lemma standalone_occurs:
  assumes "lettered w" and "standalone U w s"
  shows "occurs U True w True s"
proof -
  from assms(2) obtain pre m post where s: "s = pre @ m @ post"
    and m: "map ascii_lower m = map ascii_lower w"
    and l: "pre = [] \<or> \<not> is_word U (last pre)"
    and r: "post = [] \<or> \<not> is_word U (hd post)"
    unfolding standalone_def by blast
  note ends = same_letters_ends [OF m assms(1)]
  from l ends have "boundary U (prev_after None pre, m @ post)"
    by (cases m; cases pre rule: rev_cases) (auto simp: boundary.simps)
  moreover from r ends have "boundary U (prev_after None (pre @ m), post)"
    by (cases post) (auto simp: boundary.simps prev_after_last)
  ultimately show ?thesis
    using s same_letters_match [OF m] unfolding occurs_def by blast
qed

lemma occurs_weaken: "occurs U True w True s \<Longrightarrow> occurs U lb w rb s"
  unfolding occurs_def by blast

text \<open>The three facts about a pattern \<open>\b(w1|...|wn)\b\<close> whose words begin and end with a letter.\<close>

lemma word_group_strip:
  assumes "\<forall>w\<in>set ws. lettered (ascii w)"
  shows "search U (word_group ws) (strip s) = search U (word_group ws) s"
  unfolding search_word_group using assms by (simp add: occurs_strip)

lemma word_group_nonempty:
  assumes "\<forall>w\<in>set ws. lettered (ascii w)" and "search U (word_group ws) s"
  shows "s \<noteq> []"
  using assms unfolding search_word_group by (blast dest: occurs_nonempty)

lemma word_group_standalone:
  assumes "\<forall>w\<in>set ws. lettered (ascii w)" and "w \<in> set (rx_tokens (word_group ws))"
    and "standalone U w s"
  shows "search U (word_group ws) s"
proof -
  from assms(2) obtain w' where "w' \<in> set ws" "w = ascii w'"
    by (auto simp: word_group_def)
  with assms(1,3) show ?thesis
    unfolding search_word_group by (blast intro: standalone_occurs)
qed

lemma matches_help:
  "matches U (Alts [Seq [WordB, Lit h], Seq [Lit c, WordB]]) cur \<noteq> [] \<longleftrightarrow>
     (boundary U cur \<and> (\<exists>cur'. lit_match h cur = Some cur')) \<or>
     (\<exists>cur'. lit_match c cur = Some cur' \<and> boundary U cur')"
  by (auto split: option.splits) metis+

lemma search_help:
  "search U (Alts [Seq [WordB, Lit h], Seq [Lit c, WordB]]) s \<longleftrightarrow>
     occurs U True h False s \<or> occurs U False c True s"
proof
  assume "search U (Alts [Seq [WordB, Lit h], Seq [Lit c, WordB]]) s"
  then obtain pre post where s: "s = pre @ post"
    and alt: "(boundary U (prev_after None pre, post) \<and>
                (\<exists>cur'. lit_match h (prev_after None pre, post) = Some cur')) \<or>
              (\<exists>cur'. lit_match c (prev_after None pre, post) = Some cur' \<and> boundary U cur')"
    unfolding search_def search_from_iff matches_help by blast
  from alt show "occurs U True h False s \<or> occurs U False c True s"
  proof
    assume "boundary U (prev_after None pre, post) \<and>
              (\<exists>cur'. lit_match h (prev_after None pre, post) = Some cur')"
    then obtain m post' where "boundary U (prev_after None pre, post)" "post = m @ post'"
      "list_all2 ci_match h m"
      unfolding lit_match_iff by blast
    with s have "occurs U True h False s"
      unfolding occurs_def by (intro exI [of _ pre] exI [of _ m] exI [of _ post']) simp
    then show ?thesis ..
  next
    assume "\<exists>cur'. lit_match c (prev_after None pre, post) = Some cur' \<and> boundary U cur'"
    then obtain m post' where "post = m @ post'" "list_all2 ci_match c m"
      "boundary U (prev_after (prev_after None pre) m, post')"
      unfolding lit_match_iff by blast
    with s have "occurs U False c True s"
      unfolding occurs_def by (intro exI [of _ pre] exI [of _ m] exI [of _ post']) simp
    then show ?thesis ..
  qed
next
  assume "occurs U True h False s \<or> occurs U False c True s"
  then show "search U (Alts [Seq [WordB, Lit h], Seq [Lit c, WordB]]) s"
  proof
    assume "occurs U True h False s"
    then obtain pre m post where s: "s = pre @ m @ post" and m: "list_all2 ci_match h m"
      and b: "boundary U (prev_after None pre, m @ post)"
      unfolding occurs_def by blast
    from m have "\<exists>cur'. lit_match h (prev_after None pre, m @ post) = Some cur'"
      unfolding lit_match_iff by blast
    with b have "matches U (Alts [Seq [WordB, Lit h], Seq [Lit c, WordB]])
        (prev_after None pre, m @ post) \<noteq> []"
      unfolding matches_help by blast
    with s show ?thesis
      unfolding search_def search_from_iff by blast
  next
    assume "occurs U False c True s"
    then obtain pre m post where s: "s = pre @ m @ post" and m: "list_all2 ci_match c m"
      and b: "boundary U (prev_after None (pre @ m), post)"
      unfolding occurs_def by blast
    from m have "lit_match c (prev_after None pre, m @ post) =
        Some (prev_after (prev_after None pre) m, post)"
      unfolding lit_match_iff by blast
    with b have "matches U (Alts [Seq [WordB, Lit h], Seq [Lit c, WordB]])
        (prev_after None pre, m @ post) \<noteq> []"
      unfolding matches_help by auto
    with s show ?thesis
      unfolding search_def search_from_iff by blast
  qed
qed

lemma help_strip:
  assumes "lettered h" and "lettered c"
  shows "search U (Alts [Seq [WordB, Lit h], Seq [Lit c, WordB]]) (strip s) =
         search U (Alts [Seq [WordB, Lit h], Seq [Lit c, WordB]]) s"
  unfolding search_help using assms by (simp add: occurs_strip)

lemma help_nonempty:
  assumes "lettered h" and "lettered c"
    and "search U (Alts [Seq [WordB, Lit h], Seq [Lit c, WordB]]) s"
  shows "s \<noteq> []"
  using assms unfolding search_help by (blast dest: occurs_nonempty)

lemma help_standalone:
  assumes "lettered h" and "lettered c"
    and "w \<in> set (rx_tokens (Alts [Seq [WordB, Lit h], Seq [Lit c, WordB]]))"
    and "standalone U w s"
  shows "search U (Alts [Seq [WordB, Lit h], Seq [Lit c, WordB]]) s"
proof -
  from assms(3) have "w = h \<or> w = c" by auto
  with assms(1,2,4) have "occurs U True h True s \<or> occurs U True c True s"
    by (blast intro: standalone_occurs)
  then show ?thesis
    unfolding search_help by (blast intro: occurs_weaken)
qed

text \<open>Every word of the table begins and ends with a letter.\<close>

lemma table_shapes:
  assumes "info \<in> set SMALL_TALK"
  shows "(\<exists>ws. pattern info = word_group ws \<and> (\<forall>w\<in>set ws. lettered (ascii w))) \<or>
         (\<exists>h c. pattern info = Alts [Seq [WordB, Lit h], Seq [Lit c, WordB]] \<and> lettered h \<and> lettered c)"
proof -
  have l: "\<forall>w\<in>set [''hi'', ''hello'', ''hey'', ''hiya'', ''hlo'',
      ''how are you'', ''how r u'', ''how're you'', ''how are u'', ''kaise ho'', ''kya haal'',
      ''i am fine'', ''i'm fine'', ''main theek hoon'', ''mai theek hu'', ''mai thik hu'',
      ''thanks'', ''thank you'', ''thx'', ''shukriya'',
      ''bye'', ''goodbye'', ''see ya'', ''exit'', ''quit'', ''alvida'',
      ''help'', ''commands'']. lettered (ascii w)"
    by (simp add: lettered_def ascii_def ascii_letter_def)
  from assms consider "info = greeting" | "info = howare" | "info = imfine" | "info = thanks"
    | "info = farewell" | "info = help_info"
    by (auto simp: SMALL_TALK_def)
  then show ?thesis
  proof cases
    case 1
    with l show ?thesis by (intro disjI1 exI [of _ "[''hi'', ''hello'', ''hey'', ''hiya'', ''hlo'']"]) (simp add: greeting_def)
  next
    case 2
    with l show ?thesis
      by (intro disjI1 exI [of _ "[''how are you'', ''how r u'', ''how're you'', ''how are u'', ''kaise ho'', ''kya haal'']"])
         (simp add: howare_def)
  next
    case 3
    with l show ?thesis
      by (intro disjI1 exI [of _ "[''i am fine'', ''i'm fine'', ''main theek hoon'', ''mai theek hu'', ''mai thik hu'']"])
         (simp add: imfine_def)
  next
    case 4
    with l show ?thesis
      by (intro disjI1 exI [of _ "[''thanks'', ''thank you'', ''thx'', ''shukriya'']"]) (simp add: thanks_def)
  next
    case 5
    with l show ?thesis
      by (intro disjI1 exI [of _ "[''bye'', ''goodbye'', ''see ya'', ''exit'', ''quit'', ''alvida'']"])
         (simp add: farewell_def)
  next
    case 6
    with l show ?thesis
      by (intro disjI2 exI [of _ "ascii ''help''"] exI [of _ "ascii ''commands''"]) (simp add: help_info_def)
  qed
qed

lemma table_strip:
  "info \<in> set SMALL_TALK \<Longrightarrow> search U (pattern info) (strip s) = search U (pattern info) s"
  using table_shapes [of info] by (auto simp: word_group_strip help_strip)

lemma table_nonempty:
  "info \<in> set SMALL_TALK \<Longrightarrow> search U (pattern info) s \<Longrightarrow> s \<noteq> []"
  using table_shapes [of info] by (auto dest: word_group_nonempty help_nonempty)

lemma table_standalone:
  "info \<in> set SMALL_TALK \<Longrightarrow> w \<in> set (rx_tokens (pattern info)) \<Longrightarrow> standalone U w s \<Longrightarrow>
     search U (pattern info) s"
proof -
  assume info: "info \<in> set SMALL_TALK" and w: "w \<in> set (rx_tokens (pattern info))"
    and s: "standalone U w s"
  from table_shapes [OF info] show ?thesis
  proof (elim disjE exE conjE)
    fix ws
    assume "pattern info = word_group ws" "\<forall>w\<in>set ws. lettered (ascii w)"
    with w s show ?thesis
      using word_group_standalone [of ws w U s] by simp
  next
    fix h c
    assume "pattern info = Alts [Seq [WordB, Lit h], Seq [Lit c, WordB]]" "lettered h" "lettered c"
    with w s show ?thesis
      using help_standalone [of h c w U s] by simp
  qed
qed

lemma SMALL_TALK_replies:
  "info \<in> set SMALL_TALK \<Longrightarrow> replies info \<noteq> [] \<and> replies info ! 0 \<noteq> []"
  by (auto simp: SMALL_TALK_def greeting_def howare_def imfine_def thanks_def farewell_def
        help_info_def ascii_def)

section \<open>Small talk\<close>

lemma first_reply_at:
  assumes "i < length rules" and "search U (pattern (rules ! i)) txt"
    and "\<forall>j<i. \<not> search U (pattern (rules ! j)) txt"
  shows "first_reply U rules txt = Some (replies (rules ! i) ! 0)"
  using assms
proof (induction rules arbitrary: i)
  case Nil
  then show ?case by simp
next
  case (Cons r rs)
  show ?case
  proof (cases i)
    case 0
    with Cons.prems show ?thesis by simp
  next
    case (Suc k)
    with Cons.prems have "\<not> search U (pattern r) txt"
      by auto
    moreover from Suc Cons.prems have "first_reply U rs txt = Some (replies (rs ! k) ! 0)"
      by (intro Cons.IH) auto
    ultimately show ?thesis
      using Suc by simp
  qed
qed

lemma small_talk_reply:
  assumes "i < length SMALL_TALK" and "search U (pattern (SMALL_TALK ! i)) user_input"
    and "\<forall>j<i. \<not> search U (pattern (SMALL_TALK ! j)) user_input"
  shows "answer_query U net user_input s = (Inr (replies (SMALL_TALK ! i) ! 0), s)"
proof -
  let ?q = "strip user_input"
  have mem: "SMALL_TALK ! j \<in> set SMALL_TALK" if "j \<le> i" for j
    using that assms(1) by simp
  from assms(2) have hit: "search U (pattern (SMALL_TALK ! i)) ?q"
    by (simp add: table_strip mem)
  then have ne: "?q \<noteq> []"
    using table_nonempty mem by blast
  from assms(3) have "\<forall>j<i. \<not> search U (pattern (SMALL_TALK ! j)) ?q"
    by (simp add: table_strip mem)
  with assms(1) hit have "check_small_talk U ?q = Some (replies (SMALL_TALK ! i) ! 0)"
    unfolding check_small_talk_def by (rule first_reply_at)
  moreover have "replies (SMALL_TALK ! i) ! 0 \<noteq> []"
    using SMALL_TALK_replies mem by blast
  ultimately show ?thesis
    using ne by (simp add: answer_query_def)
qed

text \<open>
  C4. The rules are tried in the order of the table. When rule \<open>i\<close> matches the input
  and no rule before it does, \<open>answer_query\<close> returns the first reply of rule \<open>i\<close>;
  the result is the same for every remote service, and the state after the call is the
  state before it: no request was sent and the cache was not touched.
\<close>

theorem small_talk_first_match:
  assumes "i < length SMALL_TALK" and "search U (pattern (SMALL_TALK ! i)) user_input"
    and "\<forall>j<i. \<not> search U (pattern (SMALL_TALK ! j)) user_input"
  shows "answer_query U net user_input s = (Inr (replies (SMALL_TALK ! i) ! 0), s)"
  using assms by (rule small_talk_reply)

lemmas eval_defs =
  SMALL_TALK_def greeting_def howare_def imfine_def thanks_def farewell_def help_info_def
  word_group_def search_def ascii_def boundary.simps
  is_word_def ascii_alnum_def ci_match_def ascii_letter_def ascii_lower_def isspace_def

lemma thx_rules:
  "search U (pattern (SMALL_TALK ! 3)) (ascii ''  thx '')"
  "\<not> search U (pattern (SMALL_TALK ! 0)) (ascii ''  thx '')"
  "\<not> search U (pattern (SMALL_TALK ! 1)) (ascii ''  thx '')"
  "\<not> search U (pattern (SMALL_TALK ! 2)) (ascii ''  thx '')"
  by (simp_all add: eval_defs)

lemma all_less_3: "(\<forall>j<3::nat. P j) \<longleftrightarrow> P 0 \<and> P 1 \<and> P 2"
  by (auto simp: less_Suc_eq numeral_3_eq_3 numeral_2_eq_2)

theorem small_talk_first_match_witness:
  "answer_query ascii_only offline (ascii ''  thx '') initial = (Inr (ascii ''Aapka swagat hai!''), initial)"
proof -
  have "replies (SMALL_TALK ! 3) ! 0 = ascii ''Aapka swagat hai!''"
    by (simp add: SMALL_TALK_def thanks_def)
  moreover have "(3::nat) < length SMALL_TALK"
    by (simp add: SMALL_TALK_def)
  moreover have "\<forall>j<3. \<not> search ascii_only (pattern (SMALL_TALK ! j)) (ascii ''  thx '')"
    unfolding all_less_3 using thx_rules(2-4) by (simp del: One_nat_def)
  ultimately show ?thesis
    using small_talk_first_match [of 3 ascii_only "ascii ''  thx ''" offline initial] thx_rules(1)
    by simp
qed

lemma first_match_exists:
  assumes "P (i::nat)"
  shows "\<exists>j\<le>i. P j \<and> (\<forall>k<j. \<not> P k)"
proof -
  let ?j = "LEAST j. P j"
  from assms have "P ?j" by (rule LeastI)
  moreover from assms have "?j \<le> i" by (rule Least_le)
  moreover have "\<forall>k<?j. \<not> P k"
    using not_less_Least by blast
  ultimately show ?thesis by blast
qed

text \<open>
  C10 as stated fails on an input that holds tokens of two rules: \<open>bye hello\<close> holds
  the token \<open>bye\<close> of the farewell rule as a standalone word, and the answer is the first
  reply of the greeting rule, which stands earlier in the table.
\<close>

theorem token_anywhere_counterexample:
  "farewell \<in> set SMALL_TALK \<and>
   ascii ''bye'' \<in> set (rx_tokens (pattern farewell)) \<and>
   standalone ascii_only (ascii ''bye'') (ascii ''bye hello'') \<and>
   replies farewell ! 0 = ascii ''Goodbye! '' @ smile \<and>
   answer_query ascii_only offline (ascii ''bye hello'') initial = (Inr (ascii ''Hi!''), initial) \<and>
   ascii ''Hi!'' \<noteq> ascii ''Goodbye! '' @ smile"
proof -
  have "ascii ''bye hello'' = [] @ ascii ''bye'' @ ascii '' hello''"
    by (simp add: ascii_def)
  moreover have "\<not> is_word ascii_only (hd (ascii '' hello''))"
    by (simp add: ascii_def is_word_def ascii_alnum_def)
  ultimately have "standalone ascii_only (ascii ''bye'') (ascii ''bye hello'')"
    unfolding standalone_def by blast
  moreover have "search ascii_only (pattern (SMALL_TALK ! 0)) (ascii ''bye hello'')"
    by (simp add: eval_defs)
  then have "answer_query ascii_only offline (ascii ''bye hello'') initial =
      (Inr (replies (SMALL_TALK ! 0) ! 0), initial)"
    by (intro small_talk_reply) (simp_all add: SMALL_TALK_def)
  then have "answer_query ascii_only offline (ascii ''bye hello'') initial = (Inr (ascii ''Hi!''), initial)"
    by (simp add: SMALL_TALK_def greeting_def)
  moreover have "farewell \<in> set SMALL_TALK"
    by (simp add: SMALL_TALK_def)
  moreover have "ascii ''bye'' \<in> set (rx_tokens (pattern farewell))"
    by (simp add: farewell_def word_group_def)
  moreover have "replies farewell ! 0 = ascii ''Goodbye! '' @ smile"
    by (simp add: farewell_def)
  moreover have "ascii ''Hi!'' \<noteq> ascii ''Goodbye! '' @ smile"
    by (simp add: ascii_def)
  ultimately show ?thesis by blast
qed

text \<open>
  C10 as amended. When the input holds a token of rule \<open>i\<close> as a standalone word anywhere,
  rule \<open>i\<close> matches, and \<open>answer_query\<close> returns the first reply of the first rule of
  the table that matches, which is rule \<open>i\<close> itself when no rule before it matches; in
  both cases the state is unchanged (no remote lookup, no cache mutation).
\<close>

theorem token_anywhere:
  assumes "i < length SMALL_TALK"
    and "w \<in> set (rx_tokens (pattern (SMALL_TALK ! i)))"
    and "standalone U w user_input"
  shows "(\<exists>j\<le>i. search U (pattern (SMALL_TALK ! j)) user_input \<and>
            (\<forall>k<j. \<not> search U (pattern (SMALL_TALK ! k)) user_input) \<and>
            answer_query U net user_input s = (Inr (replies (SMALL_TALK ! j) ! 0), s)) \<and>
         ((\<forall>k<i. \<not> search U (pattern (SMALL_TALK ! k)) user_input) \<longrightarrow>
            answer_query U net user_input s = (Inr (replies (SMALL_TALK ! i) ! 0), s))"
proof (intro conjI impI)
  from assms have hit: "search U (pattern (SMALL_TALK ! i)) user_input"
    by (intro table_standalone) simp_all
  then obtain j where j: "j \<le> i" "search U (pattern (SMALL_TALK ! j)) user_input"
    "\<forall>k<j. \<not> search U (pattern (SMALL_TALK ! k)) user_input"
    using first_match_exists [of "\<lambda>j. search U (pattern (SMALL_TALK ! j)) user_input" i] by blast
  with assms(1) have "answer_query U net user_input s = (Inr (replies (SMALL_TALK ! j) ! 0), s)"
    by (intro small_talk_reply) simp_all
  with j show "\<exists>j\<le>i. search U (pattern (SMALL_TALK ! j)) user_input \<and>
            (\<forall>k<j. \<not> search U (pattern (SMALL_TALK ! k)) user_input) \<and>
            answer_query U net user_input s = (Inr (replies (SMALL_TALK ! j) ! 0), s)"
    by blast
  assume "\<forall>k<i. \<not> search U (pattern (SMALL_TALK ! k)) user_input"
  with assms(1) hit show "answer_query U net user_input s = (Inr (replies (SMALL_TALK ! i) ! 0), s)"
    by (rule small_talk_reply)
qed

theorem token_anywhere_witness:
  "standalone ascii_only (ascii ''hello'') (ascii ''who is hello kitty'') \<and>
   answer_query ascii_only offline (ascii ''who is hello kitty'') initial = (Inr (ascii ''Hi!''), initial)"
proof -
  have "ascii ''who is hello kitty'' = ascii ''who is '' @ ascii ''hello'' @ ascii '' kitty''"
    by (simp add: ascii_def)
  moreover have "\<not> is_word ascii_only (last (ascii ''who is ''))"
    "\<not> is_word ascii_only (hd (ascii '' kitty''))"
    by (simp_all add: ascii_def is_word_def ascii_alnum_def)
  ultimately have st: "standalone ascii_only (ascii ''hello'') (ascii ''who is hello kitty'')"
    unfolding standalone_def by blast
  have "(0::nat) < length SMALL_TALK"
    and "ascii ''hello'' \<in> set (rx_tokens (pattern (SMALL_TALK ! 0)))"
    and "replies (SMALL_TALK ! 0) ! 0 = ascii ''Hi!''"
    by (simp_all add: SMALL_TALK_def greeting_def word_group_def)
  with st token_anywhere [of 0 "ascii ''hello''" ascii_only "ascii ''who is hello kitty''" offline initial]
  show ?thesis by simp
qed

end
